theory Spec2Isabelle
  imports Complex_Main "HOL-Library.Log_Nat"
begin

section \<open>Numbers\<close>

text \<open>
  The script \<^verbatim>\<open>app.py\<close> computes on pandas columns of dtype \<^verbatim>\<open>int64\<close> and \<^verbatim>\<open>float64\<close>.
  An \<^verbatim>\<open>int64\<close> is an integer, and its subtraction wraps around modulo \<open>2 ^ 64\<close>.
\<close>

definition wrap64 :: "int \<Rightarrow> int" where
  "wrap64 i = (i + 2 ^ 63) mod 2 ^ 64 - 2 ^ 63"

text \<open>
  A \<^verbatim>\<open>float64\<close> is a finite binary64 number, an infinity or NaN. The sign of a zero is
  not kept: \<^verbatim>\<open>-0.0\<close> and \<^verbatim>\<open>0.0\<close> are the one value \<open>Finite 0\<close>, as they are equal for
  Python's \<^verbatim>\<open>==\<close>.
\<close>

datatype fl = Finite rat | Pos_inf | Neg_inf | NaN

text \<open>The exponent \<open>e\<close> with \<open>2 ^ e \<le> x < 2 ^ (e + 1)\<close>, for positive \<open>x\<close>.\<close>

definition flog2 :: "rat \<Rightarrow> int" where
  "flog2 x =
     (case quotient_of x of
        (p, q) \<Rightarrow> let e = bitlen p - bitlen q in if 2 powi e \<le> x then e else e - 1)"

text \<open>The nearest integer, the even one of two that are equally near.\<close>

definition rne :: "rat \<Rightarrow> int" where
  "rne q =
     (let f = \<lfloor>q\<rfloor>; r = q - of_int f
      in if r < 1 / 2 then f else if 1 / 2 < r then f + 1 else if even f then f else f + 1)"

text \<open>
  The unit in the last place of binary64 at \<open>x\<close>: 53 significant bits, and no exponent
  below \<open>- 1022\<close> (the subnormal numbers are the multiples of \<open>2 ^ - 1074\<close>).
\<close>

definition ulp :: "rat \<Rightarrow> rat" where
  "ulp x = 2 powi (max (flog2 \<bar>x\<bar>) (- 1022) - 52)"

text \<open>
  Rounding to the nearest binary64 number, ties to even, as every operation of IEEE 754
  arithmetic rounds its exact result; a result of magnitude \<open>2 ^ 1024\<close> or more
  overflows to an infinity.
\<close>

definition rnd :: "rat \<Rightarrow> rat" where
  "rnd x = (if x = 0 then 0 else of_int (rne (x / ulp x)) * ulp x)"

definition round64 :: "rat \<Rightarrow> fl" where
  "round64 x =
     (if 2 ^ 1024 \<le> \<bar>rnd x\<bar> then (if 0 < x then Pos_inf else Neg_inf) else Finite (rnd x))"

text \<open>
  Subtraction and division of \<^verbatim>\<open>float64\<close>. A NaN operand gives NaN; the difference of
  equal infinities and the quotient of two infinities or of two zeros are NaN; a
  nonzero number over zero is an infinity, and nothing raises.
\<close>

fun fsub :: "fl \<Rightarrow> fl \<Rightarrow> fl" where
  "fsub NaN y = NaN"
| "fsub x NaN = NaN"
| "fsub (Finite a) (Finite b) = round64 (a - b)"
| "fsub (Finite a) Pos_inf = Neg_inf"
| "fsub (Finite a) Neg_inf = Pos_inf"
| "fsub Pos_inf Pos_inf = NaN"
| "fsub Pos_inf y = Pos_inf"
| "fsub Neg_inf Neg_inf = NaN"
| "fsub Neg_inf y = Neg_inf"

fun fdiv :: "fl \<Rightarrow> fl \<Rightarrow> fl" where
  "fdiv NaN y = NaN"
| "fdiv x NaN = NaN"
| "fdiv (Finite a) (Finite b) =
     (if b = 0 then (if a = 0 then NaN else if 0 < a then Pos_inf else Neg_inf)
      else round64 (a / b))"
| "fdiv (Finite a) y = Finite 0"
| "fdiv Pos_inf (Finite b) = (if 0 \<le> b then Pos_inf else Neg_inf)"
| "fdiv Neg_inf (Finite b) = (if 0 \<le> b then Neg_inf else Pos_inf)"
| "fdiv x y = NaN"

section \<open>Tables\<close>

text \<open>
  A table is a list of named columns. A column is of dtype \<^verbatim>\<open>int64\<close> (which has no
  missing cells), of dtype \<^verbatim>\<open>float64\<close> (a missing cell is NaN), or of another dtype,
  where a missing cell is \<open>None\<close>.
\<close>

datatype column = IntCol "int list" | FloatCol "fl list" | ObjCol "string option list"

type_synonym frame = "(string \<times> column) list"

fun col_len :: "column \<Rightarrow> nat" where
  "col_len (IntCol xs) = length xs"
| "col_len (FloatCol xs) = length xs"
| "col_len (ObjCol xs) = length xs"

fun notna :: "column \<Rightarrow> bool list" where
  "notna (IntCol xs) = map (\<lambda>x. True) xs"
| "notna (FloatCol xs) = map (\<lambda>x. x \<noteq> NaN) xs"
| "notna (ObjCol xs) = map (\<lambda>x. x \<noteq> None) xs"

definition nrows :: "frame \<Rightarrow> nat" where
  "nrows fr = (case fr of [] \<Rightarrow> 0 | (n, c) # _ \<Rightarrow> col_len c)"

definition cell_present :: "column \<Rightarrow> nat \<Rightarrow> bool" where
  "cell_present c i = (i < col_len c \<and> notna c ! i)"

text \<open>Row \<open>i\<close> is complete when no column misses its cell there.\<close>

definition complete_rows :: "frame \<Rightarrow> bool list" where
  "complete_rows fr = map (\<lambda>i. list_all (\<lambda>(n, c). cell_present c i) fr) [0..<nrows fr]"

definition keep :: "bool list \<Rightarrow> 'a list \<Rightarrow> 'a list" where
  "keep m xs = map snd (filter fst (zip m xs))"

fun take_rows :: "bool list \<Rightarrow> column \<Rightarrow> column" where
  "take_rows m (IntCol xs) = IntCol (keep m xs)"
| "take_rows m (FloatCol xs) = FloatCol (keep m xs)"
| "take_rows m (ObjCol xs) = ObjCol (keep m xs)"

text \<open>\<^verbatim>\<open>DataFrame.dropna()\<close> with its defaults: a row with any missing cell goes.\<close>

definition dropna :: "frame \<Rightarrow> frame" where
  "dropna fr = map (\<lambda>(n, c). (n, take_rows (complete_rows fr) c)) fr"

text \<open>What pandas guarantees of every table: all columns have the table's length.\<close>

definition rectangular :: "frame \<Rightarrow> bool" where
  "rectangular fr = list_all (\<lambda>(n, c). col_len c = nrows fr) fr"

definition no_missing :: "frame \<Rightarrow> bool" where
  "no_missing fr = list_all (\<lambda>(n, c). list_all (\<lambda>b. b) (notna c)) fr"

subsection \<open>Column arithmetic\<close>

fun finite_values :: "fl list \<Rightarrow> rat list" where
  "finite_values [] = []"
| "finite_values (Finite a # xs) = a # finite_values xs"
| "finite_values (x # xs) = finite_values xs"

text \<open>
  \<^verbatim>\<open>Series.min()\<close> and \<^verbatim>\<open>Series.max()\<close> of a \<^verbatim>\<open>float64\<close> column skip NaN and are NaN
  when nothing is left.
\<close>

definition fl_min :: "fl list \<Rightarrow> fl" where
  "fl_min xs =
     (if Neg_inf \<in> set xs then Neg_inf
      else case finite_values xs of
             v # vs \<Rightarrow> Finite (fold min vs v)
           | [] \<Rightarrow> if Pos_inf \<in> set xs then Pos_inf else NaN)"

definition fl_max :: "fl list \<Rightarrow> fl" where
  "fl_max xs =
     (if Pos_inf \<in> set xs then Pos_inf
      else case finite_values xs of
             v # vs \<Rightarrow> Finite (fold max vs v)
           | [] \<Rightarrow> if Neg_inf \<in> set xs then Neg_inf else NaN)"

text \<open>Lines 159 to 161 for a \<^verbatim>\<open>float64\<close> column.\<close>

definition float_minmax :: "fl list \<Rightarrow> fl list" where
  "float_minmax xs =
     (let min_val = fl_min xs; max_val = fl_max xs
      in map (\<lambda>x. fdiv (fsub x min_val) (fsub max_val min_val)) xs)"

text \<open>
  Lines 159 to 161 for an \<^verbatim>\<open>int64\<close> column: both subtractions are those of \<^verbatim>\<open>int64\<close>,
  and the division converts its two operands to \<^verbatim>\<open>float64\<close> and divides them there. The
  new column is of dtype \<^verbatim>\<open>float64\<close>.
\<close>

definition int_minmax :: "int list \<Rightarrow> fl list" where
  "int_minmax xs =
     (case xs of
        [] \<Rightarrow> []
      | v # vs \<Rightarrow>
          let min_val = fold min vs v; max_val = fold max vs v
          in map (\<lambda>x. fdiv (round64 (of_int (wrap64 (x - min_val))))
                          (round64 (of_int (wrap64 (max_val - min_val))))) xs)"

fun scale :: "column \<Rightarrow> column" where
  "scale (IntCol xs) = FloatCol (int_minmax xs)"
| "scale (FloatCol xs) = FloatCol (float_minmax xs)"
| "scale (ObjCol xs) = ObjCol xs"

fun is_numeric :: "column \<Rightarrow> bool" where
  "is_numeric (IntCol xs) = True"
| "is_numeric (FloatCol xs) = True"
| "is_numeric (ObjCol xs) = False"

text \<open>\<^verbatim>\<open>df.select_dtypes(include=['float64', 'int64']).columns\<close>\<close>

definition numeric_cols :: "frame \<Rightarrow> string list" where
  "numeric_cols fr = map fst (filter (\<lambda>(n, c). is_numeric c) fr)"

section \<open>Exceptions, session and memory\<close>

datatype exn = NameError string | AttributeError | KeyError string | TypeError | Raised string

text \<open>
  Tables are objects: a variable or a session slot holds a reference to one, and the
  operations of the cleaning block change the object itself (\<^verbatim>\<open>inplace=True\<close>,
  \<^verbatim>\<open>df[col] = ...\<close>). The heap maps each reference to the table it holds now.
\<close>

type_synonym ref = nat

datatype pyval = PyNone | Ref ref

text \<open>\<^verbatim>\<open>st.session_state\<close>: a slot is \<open>None\<close> when the key is not in the session.\<close>

record session =
  uploaded_df :: "pyval option"
  cleaned_df :: "pyval option"
  df :: "pyval option"

type_synonym memory_log = "string \<rightharpoonup> string list"

record world =
  heap :: "ref \<Rightarrow> frame"
  next_ref :: ref
  session_state :: session
  memory :: memory_log

text \<open>
  Modelled from the spec: the module \<^verbatim>\<open>utils/memory.py\<close> (\<^verbatim>\<open>remember\<close>, \<^verbatim>\<open>recall\<close>,
  \<^verbatim>\<open>clear_all_memory\<close>) is imported at line 11 and is not among the sources. The spec,
  section 4.2: \<^verbatim>\<open>remember(key, value)\<close> associates the value with the key, replacing any
  prior association for that exact key; \<^verbatim>\<open>recall(key)\<close> returns the stored value, or
  absent if never written; \<^verbatim>\<open>clear_all()\<close> removes every key.
\<close>

definition remember :: "string \<Rightarrow> string list \<Rightarrow> memory_log \<Rightarrow> memory_log" where
  "remember k v m = m(k \<mapsto> v)"

definition recall :: "string \<Rightarrow> memory_log \<Rightarrow> string list option" where
  "recall k m = m k"

definition clear_all_memory :: "memory_log \<Rightarrow> memory_log" where
  "clear_all_memory m = Map.empty"

section \<open>The script\<close>

text \<open>
  What a run shows and whom it calls. The messages are the source's without their emoji;
  the text of the caught exception in the message of line 142 is left out. A call of a
  collaborator that is not among the sources (\<^verbatim>\<open>run_eda\<close>, \<^verbatim>\<open>show_visuals\<close>,
  \<^verbatim>\<open>run_modeling\<close>, \<^verbatim>\<open>export_data\<close>, \<^verbatim>\<open>powerbi_pipeline\<close>, \<^verbatim>\<open>live_dashboard\<close>) or of a
  pandas reader of the report is recorded with the value it is given; what the callee
  does with it is outside the model. Calls that only lay out the page (theme, CSS,
  title, rulers, headings) are left out.
\<close>

datatype event =
    St_warning string
  | St_error string
  | St_success string
  | St_info string
  | St_info_steps "string list"
  | St_write_head pyval
  | Sidebar_success string
  | Sidebar_error string
  | Sidebar_rows nat
  | Sidebar_columns nat
  | Show_memory
  | Call string pyval

text \<open>The keys of \<^verbatim>\<open>menu\<close>, lines 75 to 87, in their order.\<close>

datatype menu_key =
    Upload_Dataset
  | Data_Cleaning
  | Exploratory_Data_Analysis
  | Visualization
  | Feature_Engineering_Modeling
  | Evaluation_Tuning
  | Export_Dataset
  | Generate_Report
  | Power_BI_Pipeline
  | Live_Dashboard

text \<open>
  An uploaded file: its name, and what each pandas reader does with it (\<open>Inl\<close>: it
  raises). The uploader of line 121 is told \<^verbatim>\<open>type=["csv", "xlsx"]\<close>; which names it
  lets through is not modelled, any name may arrive.
\<close>

record upload =
  file_name :: string
  read_csv :: "exn + frame"
  read_excel :: "exn + frame"

text \<open>
  What the user and the libraries contribute to one run: the widgets' values, and whether
  showing the table's head at line 139 raises.
\<close>

record inputs =
  choice :: menu_key
  uploaded_file :: "upload option"
  write_raises :: "exn option"
  drop_button :: bool
  normalize_picks :: "string list"
  normalize_button :: bool
  clear_button :: bool

definition endswith :: "string \<Rightarrow> string \<Rightarrow> bool" where
  "endswith s suf = (length suf \<le> length s \<and> drop (length s - length suf) s = suf)"

fun join :: "string \<Rightarrow> string list \<Rightarrow> string" where
  "join sep [] = []"
| "join sep [x] = x"
| "join sep (x # y # ys) = x @ sep @ join sep (y # ys)"

text \<open>\<^verbatim>\<open>st.multiselect(label, options)\<close>: the user's picks, each once, among the options.\<close>

definition multiselect :: "string list \<Rightarrow> string list \<Rightarrow> string list" where
  "multiselect options picks = remdups (filter (\<lambda>p. p \<in> set options) picks)"

subsection \<open>Lines 92 to 113: the dataset state\<close>

definition set_df :: "pyval \<Rightarrow> world \<Rightarrow> world" where
  "set_df v w = w\<lparr>session_state := (session_state w)\<lparr>df := Some v\<rparr>\<rparr>"

text \<open>
  \<^verbatim>\<open>refresh_data\<close> (line 97) comes from \<^verbatim>\<open>utils/refresh.py\<close>, which is not among the
  sources and of which the spec says nothing: it is a parameter.
\<close>

definition dataset_state :: "(world \<Rightarrow> world) \<Rightarrow> world \<Rightarrow> world" where
  "dataset_state refresh_data w0 =
     (let w1 = (case uploaded_df (session_state w0) of Some v \<Rightarrow> set_df v w0 | None \<Rightarrow> w0);
          w2 = (case cleaned_df (session_state w1) of Some v \<Rightarrow> set_df v w1 | None \<Rightarrow> w1);
          w3 = refresh_data w2;
          w4 = (case df (session_state w3) of None \<Rightarrow> set_df PyNone w3 | Some v \<Rightarrow> w3);
          w5 = (case cleaned_df (session_state w4) of Some v \<Rightarrow> set_df v w4 | None \<Rightarrow> w4)
      in w5)"

definition sidebar :: "world \<Rightarrow> event list" where
  "sidebar w =
     (case df (session_state w) of
        Some (Ref r) \<Rightarrow>
          [Sidebar_success ''Dataset Loaded'', Sidebar_rows (nrows (heap w r)),
           Sidebar_columns (length (heap w r))]
      | _ \<Rightarrow> [Sidebar_error ''No Dataset Loaded''])"

subsection \<open>Lines 122 to 183: the upload branch\<close>

text \<open>
  The names the script binds, anywhere in the file: the imports of lines 1 to 12 and
  every assigned name. A name is looked up among them and then among Python's builtins,
  of which the script uses \<^verbatim>\<open>list\<close> and \<^verbatim>\<open>Exception\<close>; there is no builtin
  \<^verbatim>\<open>upload_data\<close>.
\<close>

definition script_names :: "string list" where
  "script_names =
     [''st'', ''pd'', ''clean_data'', ''run_eda'', ''show_visuals'', ''run_modeling'',
      ''export_data'', ''powerbi_pipeline'', ''live_dashboard'', ''refresh_data'',
      ''remember'', ''recall'', ''show_memory'', ''clear_all_memory'',
      ''select_dashboard_size'', ''theme'', ''light_css'', ''dark_css'', ''menu'',
      ''choice'', ''uploaded_file'', ''df'', ''file_name'', ''e'', ''cleaning_steps'',
      ''numeric_cols'', ''cols_to_scale'', ''col'', ''min_val'', ''max_val'', ''steps'']"

definition builtin_names :: "string list" where
  "builtin_names = [''list'', ''Exception'']"

definition resolve_name :: "string \<Rightarrow> exn + unit" where
  "resolve_name n =
     (if n \<in> set script_names \<or> n \<in> set builtin_names then Inr () else Inl (NameError n))"

text \<open>
  Lines 128 to 139, the body of the \<^verbatim>\<open>try\<close>. The result is the exception raised, if
  any, the value of the variable \<^verbatim>\<open>df\<close> at that point, the world and the messages.
  \<open>dfv\<close> is the value of \<^verbatim>\<open>df\<close> on entry.
\<close>

definition try_body ::
  "inputs \<Rightarrow> upload \<Rightarrow> pyval \<Rightarrow> world \<Rightarrow> exn option \<times> pyval \<times> world \<times> event list" where
  "try_body inp f dfv w =
     (let parsed =
            (if endswith (file_name f) ''.csv'' then Some (read_csv f)
             else if endswith (file_name f) ''.xlsx'' then Some (read_excel f)
             else None)
      in case parsed of
           None \<Rightarrow> (None, PyNone, w, [St_warning ''Please upload a CSV or Excel file.''])
         | Some (Inl e) \<Rightarrow> (Some e, dfv, w, [])
         | Some (Inr fr) \<Rightarrow>
             (let r = next_ref w;
                  w1 = w\<lparr>heap := (heap w)(r := fr), next_ref := Suc r\<rparr>;
                  w2 = w1\<lparr>session_state := (session_state w1)\<lparr>uploaded_df := Some (Ref r)\<rparr>\<rparr>;
                  ev = [St_success ''File uploaded and saved successfully!'']
              in case write_raises inp of
                   Some e \<Rightarrow> (Some e, Ref r, w2, ev)
                 | None \<Rightarrow> (None, Ref r, w2, ev @ [St_write_head (Ref r)])))"

text \<open>Line 149, \<^verbatim>\<open>df.dropna(inplace=True)\<close>: the object itself changes.\<close>

definition drop_missing_values :: "ref \<Rightarrow> world \<Rightarrow> world" where
  "drop_missing_values r w = w\<lparr>heap := (heap w)(r := dropna (heap w r))\<rparr>"

text \<open>
  Lines 158 to 161, the loop over the selected columns, on the table. \<^verbatim>\<open>df[col]\<close> is
  every column of that name: each gets its own minimum and maximum and is replaced by
  its scaled values. A name that no column bears raises \<^verbatim>\<open>KeyError\<close>, and subtracting
  from a column of strings \<^verbatim>\<open>TypeError\<close>; the columns already scaled stay scaled.
\<close>

fun normalize_loop :: "string list \<Rightarrow> frame \<Rightarrow> exn option \<times> frame" where
  "normalize_loop [] fr = (None, fr)"
| "normalize_loop (col # cols) fr =
     (if col \<notin> set (map fst fr) then (Some (KeyError col), fr)
      else if list_ex (\<lambda>(n, c). n = col \<and> \<not> is_numeric c) fr then (Some TypeError, fr)
      else normalize_loop cols (map (\<lambda>(n, c). if n = col then (n, scale c) else (n, c)) fr))"

definition normalize_selected :: "string list \<Rightarrow> ref \<Rightarrow> world \<Rightarrow> exn option \<times> world" where
  "normalize_selected cols r w =
     (case normalize_loop cols (heap w r) of
        (x, fr) \<Rightarrow> (x, w\<lparr>heap := (heap w)(r := fr)\<rparr>))"

text \<open>Lines 166 to 183: the table is saved as cleaned, the steps are remembered.\<close>

definition save_and_remember ::
  "inputs \<Rightarrow> ref \<Rightarrow> world \<Rightarrow> string list \<Rightarrow> event list \<Rightarrow> (exn + unit) \<times> world \<times> event list" where
  "save_and_remember inp r w cleaning_steps ev =
     (let w1 = w\<lparr>session_state := (session_state w)\<lparr>cleaned_df := Some (Ref r)\<rparr>\<rparr>;
          w2 = (if cleaning_steps \<noteq> []
                then w1\<lparr>memory := remember ''cleaning_steps'' cleaning_steps (memory w1)\<rparr>
                else w1);
          ev1 = (case recall ''cleaning_steps'' (memory w2) of
                   Some (s # ss) \<Rightarrow> [St_info_steps (s # ss)]
                 | _ \<Rightarrow> []);
          ev2 = ev @ ev1 @ [Show_memory]
      in if clear_button inp
         then (Inr (), w2\<lparr>memory := clear_all_memory (memory w2)\<rparr>,
               ev2 @ [St_success ''Memory cleared.''])
         else (Inr (), w2, ev2))"

text \<open>
  Lines 145 to 183, the cleaning block. \<open>dfv\<close> is the value of the variable \<^verbatim>\<open>df\<close> on
  entry and \<open>ev\<close> what the run has shown so far. On \<^verbatim>\<open>None\<close> the first attribute access
  (line 149 or 154) raises.
\<close>

definition cleaning_block ::
  "inputs \<Rightarrow> pyval \<Rightarrow> world \<Rightarrow> event list \<Rightarrow> (exn + unit) \<times> world \<times> event list" where
  "cleaning_block inp dfv w ev =
     (case dfv of
        PyNone \<Rightarrow> (Inl AttributeError, w, ev)
      | Ref r \<Rightarrow>
          (let w1 = (if drop_button inp then drop_missing_values r w else w);
               steps1 = (if drop_button inp then [''Dropped missing values''] else []);
               ev1 = (if drop_button inp then ev @ [St_success ''Missing values removed!'']
                      else ev);
               cols_to_scale = multiselect (numeric_cols (heap w1 r)) (normalize_picks inp)
           in if normalize_button inp
              then (case normalize_selected cols_to_scale r w1 of
                      (Some x, w2) \<Rightarrow> (Inl x, w2, ev1)
                    | (None, w2) \<Rightarrow>
                        save_and_remember inp r w2
                          (steps1 @ [''Normalized columns: '' @ join '', '' cols_to_scale])
                          (ev1 @ [St_success ''Selected columns normalized!'']))
              else save_and_remember inp r w1 steps1 ev1))"

text \<open>
  In the source the \<^verbatim>\<open>except\<close> clause of line 141 stands one level to the left of its
  \<^verbatim>\<open>try\<close> of line 127, and Python does not accept the file as it is. The lines need one
  of two repairs, and the model has both. In the first the clause is moved under its
  \<^verbatim>\<open>try\<close> with all the lines that follow it at its depth: lines 142 to 183 are the
  handler, and the cleaning block runs when the body of the \<^verbatim>\<open>try\<close> raises, and not
  otherwise. In the second only the clause and its message (lines 141 and 142) are moved:
  the cleaning block follows the \<^verbatim>\<open>try\<close> statement and runs after every upload,
  whether the body raised or not. Nothing below is proved for one reading only.
\<close>

datatype reading = Cleaning_in_handler | Cleaning_after_try

text \<open>Lines 125 to 183.\<close>

definition upload_rest ::
  "reading \<Rightarrow> inputs \<Rightarrow> pyval \<Rightarrow> world \<Rightarrow> (exn + unit) \<times> world \<times> event list" where
  "upload_rest rd inp dfv w =
     (case uploaded_file inp of
        None \<Rightarrow> (Inr (), w, [])
      | Some f \<Rightarrow>
          (case try_body inp f dfv w of
             (Some e, dfv1, w1, ev1) \<Rightarrow>
               cleaning_block inp dfv1 w1 (ev1 @ [St_error ''Error reading file''])
           | (None, dfv1, w1, ev1) \<Rightarrow>
               (case rd of
                  Cleaning_in_handler \<Rightarrow> (Inr (), w1, ev1)
                | Cleaning_after_try \<Rightarrow> cleaning_block inp dfv1 w1 ev1)))"

text \<open>
  Lines 122 to 183. Line 123 calls \<^verbatim>\<open>upload_data\<close> first; \<open>returned\<close> stands for what
  the call would return if the name were bound.
\<close>

definition upload_branch ::
  "reading \<Rightarrow> inputs \<Rightarrow> pyval \<Rightarrow> world \<Rightarrow> (exn + unit) \<times> world \<times> event list" where
  "upload_branch rd inp returned w =
     (case resolve_name ''upload_data'' of
        Inl e \<Rightarrow> (Inl e, w, [])
      | Inr u \<Rightarrow> upload_rest rd inp returned w)"

subsection \<open>Lines 186 to 248: the other branches\<close>

text \<open>
  The shape of lines 186 to 211: the collaborator gets \<^verbatim>\<open>st.session_state.df\<close> unless
  it is \<^verbatim>\<open>None\<close>. Reading a key that the session does not hold raises.
\<close>

definition guarded_call ::
  "string \<Rightarrow> string \<Rightarrow> world \<Rightarrow> (exn + unit) \<times> world \<times> event list" where
  "guarded_call callee warning w =
     (case df (session_state w) of
        None \<Rightarrow> (Inl AttributeError, w, [])
      | Some PyNone \<Rightarrow> (Inr (), w, [St_warning warning])
      | Some (Ref r) \<Rightarrow> (Inr (), w, [Call callee (Ref r)]))"

text \<open>The shape of lines 213 to 226: the collaborator gets the cleaned slot, if any.\<close>

definition cleaned_call ::
  "string \<Rightarrow> string \<Rightarrow> world \<Rightarrow> (exn + unit) \<times> world \<times> event list" where
  "cleaned_call callee warning w =
     (case cleaned_df (session_state w) of
        Some v \<Rightarrow> (Inr (), w, [Call callee v])
      | None \<Rightarrow> (Inr (), w, [St_warning warning]))"

definition generate_report :: "world \<Rightarrow> (exn + unit) \<times> world \<times> event list" where
  "generate_report w =
     (case df (session_state w) of
        None \<Rightarrow> (Inl AttributeError, w, [])
      | Some PyNone \<Rightarrow>
          (Inr (), w, [St_warning ''Upload and clean a dataset before generating the report.''])
      | Some (Ref r) \<Rightarrow>
          (Inr (), w,
           [Call ''describe'' (Ref r), Call ''shape'' (Ref r), Call ''select_dtypes'' (Ref r),
            Call ''select_dtypes'' (Ref r), Call ''isnull'' (Ref r),
            St_success ''Report Ready'']))"

text \<open>
  The chain of \<^verbatim>\<open>if\<close> and \<^verbatim>\<open>elif\<close> of lines 122 to 248. No branch tests for the menu
  key of data cleaning.
\<close>

fun navigate ::
  "reading \<Rightarrow> menu_key \<Rightarrow> inputs \<Rightarrow> pyval \<Rightarrow> world \<Rightarrow>
     (exn + unit) \<times> world \<times> event list" where
  "navigate rd Upload_Dataset inp returned w = upload_branch rd inp returned w"
| "navigate rd Exploratory_Data_Analysis inp returned w =
     guarded_call ''run_eda'' ''Please upload a dataset first.'' w"
| "navigate rd Visualization inp returned w =
     guarded_call ''show_visuals'' ''Please upload a dataset first.'' w"
| "navigate rd Feature_Engineering_Modeling inp returned w =
     guarded_call ''run_modeling'' ''Please upload a dataset first.'' w"
| "navigate rd Evaluation_Tuning inp returned w =
     (Inr (), w, [St_info ''Model evaluation & tuning is handled during modeling.''])"
| "navigate rd Export_Dataset inp returned w =
     guarded_call ''export_data'' ''Please upload a dataset first.'' w"
| "navigate rd Power_BI_Pipeline inp returned w =
     cleaned_call ''powerbi_pipeline'' ''Please upload and clean your dataset first.'' w"
| "navigate rd Live_Dashboard inp returned w =
     cleaned_call ''live_dashboard'' ''Please upload and clean your dataset first.'' w"
| "navigate rd Generate_Report inp returned w = generate_report w"
| "navigate rd Data_Cleaning inp returned w = (Inr (), w, [])"

definition main_navigation ::
  "reading \<Rightarrow> inputs \<Rightarrow> pyval \<Rightarrow> world \<Rightarrow> (exn + unit) \<times> world \<times> event list" where
  "main_navigation rd inp returned w = navigate rd (choice inp) inp returned w"

text \<open>One run of the script, from line 92 to the end.\<close>

definition run ::
  "reading \<Rightarrow> (world \<Rightarrow> world) \<Rightarrow> inputs \<Rightarrow> pyval \<Rightarrow> world \<Rightarrow>
     (exn + unit) \<times> world \<times> event list" where
  "run rd refresh_data inp returned w =
     (let w1 = dataset_state refresh_data w
      in case main_navigation rd inp returned w1 of
           (res, w2, ev) \<Rightarrow> (res, w2, sidebar w1 @ ev))"


subsection \<open>What the claims speak of\<close>

text \<open>
  The current dataset in the spec's words (section 4.1): cleaned if present, else
  uploaded if present, else absent.
\<close>

definition current :: "session \<Rightarrow> pyval" where
  "current s =
     (case cleaned_df s of
        Some v \<Rightarrow> v
      | None \<Rightarrow> (case uploaded_df s of Some v \<Rightarrow> v | None \<Rightarrow> PyNone))"




definition empty_session :: session where
  "empty_session = \<lparr>uploaded_df = None, cleaned_df = None, df = None\<rparr>"

definition empty_world :: world where
  "empty_world =
     \<lparr>heap = (\<lambda>r. []), next_ref = 0, session_state = empty_session, memory = Map.empty\<rparr>"

definition no_widgets :: "menu_key \<Rightarrow> inputs" where
  "no_widgets c =
     \<lparr>choice = c, uploaded_file = None, write_raises = None, drop_button = False,
      normalize_picks = [], normalize_button = False, clear_button = False\<rparr>"

text \<open>The table with every column that bears a picked name scaled.\<close>

definition scale_cols :: "string list \<Rightarrow> frame \<Rightarrow> frame" where
  "scale_cols picks fr = map (\<lambda>(n, c). (n, if n \<in> set picks then scale c else c)) fr"

text \<open>
  The stages that read \<^verbatim>\<open>st.session_state.df\<close> (lines 186 to 211 and 231 to 248), and
  the two that read the cleaned slot (lines 213 to 226).
\<close>

definition analysis_stages :: "menu_key set" where
  "analysis_stages =
     {Exploratory_Data_Analysis, Visualization, Feature_Engineering_Modeling, Export_Dataset,
      Generate_Report}"


text \<open>
  Lines 92 to 105 leave \<^verbatim>\<open>st.session_state.df\<close> as it was when neither slot is set and
  the key is there. A session is free of stale data when \<^verbatim>\<open>df\<close> then holds no table;
  the empty session is, and a run keeps it so (\<open>stale_free_run\<close> below).
\<close>

definition stale_free :: "session \<Rightarrow> bool" where
  "stale_free s =
     (if uploaded_df s = None \<and> cleaned_df s = None then df s = None \<or> df s = Some PyNone
      else True)"

text \<open>What the theorems ask of \<^verbatim>\<open>refresh_data\<close>: to leave the session, or the tables and
  the uploaded slot, as they are.\<close>

definition keeps_session :: "(world \<Rightarrow> world) \<Rightarrow> bool" where
  "keeps_session refresh_data = (\<forall>w. session_state (refresh_data w) = session_state w)"


subsection \<open>Columns in range\<close>

text \<open>
  A rational is a \<^verbatim>\<open>float64\<close> number when rounding leaves it as it is and it is below
  the overflow threshold; the finite cells of a \<^verbatim>\<open>float64\<close> column are such numbers.
\<close>

definition float64 :: "rat \<Rightarrow> bool" where
  "float64 x = (rnd x = x \<and> \<bar>x\<bar> < 2 ^ 1024)"

fun finite_cell :: "fl \<Rightarrow> bool" where
  "finite_cell (Finite a) = float64 a"
| "finite_cell NaN = True"
| "finite_cell x = False"

text \<open>
  A numeric column is in range when it holds no infinity and the spread of its values,
  maximum minus minimum, is itself a value of its dtype: below \<open>2 ^ 63\<close> for \<^verbatim>\<open>int64\<close>,
  and rounding to a finite number for \<^verbatim>\<open>float64\<close>.
\<close>

definition int_in_range :: "int list \<Rightarrow> bool" where
  "int_in_range xs =
     (case xs of [] \<Rightarrow> True | v # vs \<Rightarrow> fold max vs v - fold min vs v < 2 ^ 63)"

definition float_in_range :: "fl list \<Rightarrow> bool" where
  "float_in_range xs =
     (list_all finite_cell xs \<and>
      (case finite_values xs of
         [] \<Rightarrow> True
       | v # vs \<Rightarrow> \<bar>rnd (fold max vs v - fold min vs v)\<bar> < 2 ^ 1024))"

fun in_range :: "column \<Rightarrow> bool" where
  "in_range (IntCol xs) = int_in_range xs"
| "in_range (FloatCol xs) = float_in_range xs"
| "in_range (ObjCol xs) = True"

subsection \<open>The formula of the spec\<close>


definition scaled :: "rat \<Rightarrow> rat \<Rightarrow> rat \<Rightarrow> rat" where
  "scaled lo hi x = rnd (rnd (x - lo) / rnd (hi - lo))"

fun scaled_cell :: "rat \<Rightarrow> rat \<Rightarrow> fl \<Rightarrow> fl" where
  "scaled_cell lo hi (Finite a) = Finite (scaled lo hi a)"
| "scaled_cell lo hi x = NaN"

text \<open>The values of a numeric column as numbers, \<open>None\<close> where the cell is missing.\<close>

fun cell_value :: "fl \<Rightarrow> rat option" where
  "cell_value (Finite a) = Some a"
| "cell_value x = None"

fun cells :: "column \<Rightarrow> rat option list" where
  "cells (IntCol xs) = map (\<lambda>x. Some (of_int x)) xs"
| "cells (FloatCol xs) = map cell_value xs"
| "cells (ObjCol xs) = []"




subsection \<open>Notions of the proofs\<close>

text \<open>
  The exponent of the unit in the last place, the least positive \<^verbatim>\<open>float64\<close> number,
  and the numbers that are a whole multiple of it, as every \<^verbatim>\<open>float64\<close> number is.
\<close>

definition uexp :: "rat \<Rightarrow> int" where
  "uexp x = max (flog2 \<bar>x\<bar>) (- 1022) - 52"

definition tiny :: rat where
  "tiny = 2 powi (- 1074)"

definition grid :: "rat \<Rightarrow> bool" where
  "grid x = (\<exists>m. x = of_int m * tiny)"

subsection \<open>Sample inputs\<close>

definition cx_frame :: frame where
  "cx_frame = [(''x'', FloatCol [Finite 1, NaN, Finite 3])]"

definition cx_file :: upload where
  "cx_file =
     \<lparr>file_name = ''data.csv'', read_csv = Inr cx_frame,
      read_excel = Inl (Raised ''not a workbook'')\<rparr>"

definition bad_csv :: upload where
  "bad_csv =
     \<lparr>file_name = ''broken.csv'', read_csv = Inl (Raised ''no columns to parse''),
      read_excel = Inl (Raised ''not a workbook'')\<rparr>"

definition txt_file :: upload where
  "txt_file =
     \<lparr>file_name = ''notes.txt'', read_csv = Inl (Raised ''not a table''),
      read_excel = Inl (Raised ''not a workbook'')\<rparr>"

definition cx_inp :: inputs where
  "cx_inp =
     (no_widgets Upload_Dataset)
       \<lparr>uploaded_file := Some cx_file, write_raises := Some (Raised ''display''),
        drop_button := True\<rparr>"

definition w_uploaded :: world where
  "w_uploaded =
     empty_world
       \<lparr>heap := (\<lambda>r. [])(0 := cx_frame), next_ref := 1,
        session_state := empty_session\<lparr>uploaded_df := Some (Ref 0)\<rparr>\<rparr>"


definition w_two :: world where
  "w_two =
     empty_world
       \<lparr>heap := (\<lambda>r. [])(0 := cx_frame, 1 := cx_frame), next_ref := 2,
        session_state := empty_session\<lparr>uploaded_df := Some (Ref 0)\<rparr>\<rparr>"

definition w8 :: world where
  "w8 =
     empty_world
       \<lparr>heap := (\<lambda>r. [])
          (0 := [(''x'', IntCol [0, 5, 10, 5]),
                 (''y'', FloatCol [Finite 2, Finite 4, NaN, Finite 10]),
                 (''name'', ObjCol [Some ''a'', None, Some ''c'', Some ''d''])])\<rparr>"

definition w9 :: world where
  "w9 =
     empty_world
       \<lparr>heap := (\<lambda>r. [])
          (0 := [(''x'', FloatCol [Finite 1, NaN, Finite 3]),
                 (''y'', ObjCol [Some ''a'', Some ''b'', None])],
           1 := [(''x'', FloatCol [Finite 1, Finite 3])])\<rparr>"

definition big_column :: column where
  "big_column = IntCol [- 9000000000000000000, 0, 9000000000000000000]"

definition w_big :: world where
  "w_big = empty_world\<lparr>heap := (\<lambda>r. [])(0 := [(''x'', big_column)])\<rparr>"

section \<open>Lemmas about numbers\<close>

subsection \<open>flog2\<close>

lemma powi_pos: "(0::rat) < 2 powi e"
  by simp

lemma powi_mono: "a \<le> b \<Longrightarrow> (2::rat) powi a \<le> 2 powi b"
  by (rule power_int_increasing) simp_all

lemma powi_strict_mono: "a < b \<Longrightarrow> (2::rat) powi a < 2 powi b"
  by (rule power_int_strict_increasing) simp_all

lemma powi_le_iff: "(2::rat) powi a \<le> 2 powi b \<longleftrightarrow> a \<le> b"
  using powi_mono[of a b] powi_strict_mono[of b a] by (auto simp: not_le[symmetric])

lemma powi_less_iff: "(2::rat) powi a < 2 powi b \<longleftrightarrow> a < b"
  using powi_le_iff[of b a] by (auto simp: not_le[symmetric])

lemma powi_Suc: "(2::rat) powi (e + 1) = 2 * 2 powi e"
  by (simp add: power_int_add)

lemma bitlen_rat_bounds:
  assumes "0 < p"
  shows "(2::rat) powi (bitlen p - 1) \<le> of_int p" and "of_int p < (2::rat) powi bitlen p"
proof -
  from assms have b: "1 \<le> bitlen p" by (auto simp: bitlen_alt_def)
  from bitlen_bounds[OF assms] have 1: "2 ^ nat (bitlen p - 1) \<le> p" and 2: "p < 2 ^ nat (bitlen p)"
    by simp_all
  from 1 have "(of_int (2 ^ nat (bitlen p - 1)) :: rat) \<le> of_int p" by (simp only: of_int_le_iff)
  then show "(2::rat) powi (bitlen p - 1) \<le> of_int p"
    using b by (simp add: power_int_def)
  from 2 have "(of_int p :: rat) < of_int (2 ^ nat (bitlen p))" by (simp only: of_int_less_iff)
  then show "of_int p < (2::rat) powi bitlen p"
    using b by (simp add: power_int_def)
qed

lemma flog2_bounds:
  assumes "0 < x"
  shows "2 powi flog2 x \<le> x" and "x < 2 powi (flog2 x + 1)"
proof -
  obtain p q where pq: "quotient_of x = (p, q)" by (cases "quotient_of x")
  then have q: "0 < q" and x: "x = of_int p / of_int q"
    using quotient_of_denom_pos[OF pq] quotient_of_div[OF pq] by simp_all
  with assms have p: "0 < p" by (simp add: zero_less_divide_iff)
  define e where "e = bitlen p - bitlen q"
  have qr: "(0::rat) < of_int q" using q by simp
  have up: "x < 2 powi (e + 1)"
  proof -
    have "of_int p < (2::rat) powi bitlen p" by (rule bitlen_rat_bounds[OF p])
    also have "\<dots> = 2 powi (e + 1) * 2 powi (bitlen q - 1)"
      by (simp add: e_def power_int_add[symmetric])
    also have "\<dots> \<le> 2 powi (e + 1) * of_int q"
      using bitlen_rat_bounds(1)[OF q] by (simp add: mult_left_mono)
    finally show ?thesis using qr by (simp add: x pos_divide_less_eq)
  qed
  have low: "2 powi (e - 1) \<le> x"
  proof -
    have "2 powi (e - 1) * of_int q \<le> (2::rat) powi (e - 1) * 2 powi bitlen q"
      using bitlen_rat_bounds(2)[OF q] by (simp add: mult_left_mono)
    also have "\<dots> = 2 powi (bitlen p - 1)"
      by (simp add: e_def power_int_add[symmetric])
    also have "\<dots> \<le> of_int p" by (rule bitlen_rat_bounds[OF p])
    finally show ?thesis using qr by (simp add: x pos_le_divide_eq)
  qed
  have f: "flog2 x = (if 2 powi e \<le> x then e else e - 1)"
    by (simp add: flog2_def pq e_def Let_def)
  show "2 powi flog2 x \<le> x" using low by (simp add: f)
  show "x < 2 powi (flog2 x + 1)" using up by (auto simp: f not_le)
qed

lemma flog2_unique:
  assumes "2 powi e \<le> x" "x < 2 powi (e + 1)"
  shows "flog2 x = e"
proof -
  have x: "0 < x" using powi_pos[of e] assms(1) by linarith
  from flog2_bounds[OF x] assms
  have "2 powi flog2 x < (2::rat) powi (e + 1)" "(2::rat) powi e < 2 powi (flog2 x + 1)"
    by linarith+
  then show ?thesis by (simp add: powi_less_iff)
qed

lemma flog2_mono:
  assumes "0 < x" "x \<le> y"
  shows "flog2 x \<le> flog2 y"
proof -
  have y: "0 < y" using assms by linarith
  from flog2_bounds[OF assms(1)] flog2_bounds[OF y] assms(2)
  have "2 powi flog2 x < (2::rat) powi (flog2 y + 1)" by linarith
  then show ?thesis by (simp add: powi_less_iff)
qed

subsection \<open>rne\<close>

lemma rne_of_int: "rne (of_int k) = k"
  by (simp add: rne_def)

lemma rne_cases: "rne q = \<lfloor>q\<rfloor> \<or> rne q = \<lfloor>q\<rfloor> + 1"
  by (simp add: rne_def Let_def)

lemma rne_frac:
  "rne q = (if q - of_int \<lfloor>q\<rfloor> < 1 / 2 then \<lfloor>q\<rfloor>
            else if 1 / 2 < q - of_int \<lfloor>q\<rfloor> then \<lfloor>q\<rfloor> + 1
            else if even \<lfloor>q\<rfloor> then \<lfloor>q\<rfloor> else \<lfloor>q\<rfloor> + 1)"
  by (simp add: rne_def Let_def)

lemma rne_mono:
  assumes "q \<le> q'"
  shows "rne q \<le> rne q'"
proof (cases "\<lfloor>q\<rfloor> = \<lfloor>q'\<rfloor>")
  case True
  with assms show ?thesis by (auto simp: rne_frac)
next
  case False
  with assms have "\<lfloor>q\<rfloor> < \<lfloor>q'\<rfloor>" using floor_mono[OF assms] by linarith
  with rne_cases[of q] rne_cases[of q'] show ?thesis by linarith
qed

lemma rne_near: "\<bar>q - of_int (rne q)\<bar> \<le> 1 / 2"
proof -
  have "of_int \<lfloor>q\<rfloor> \<le> q" "q < of_int \<lfloor>q\<rfloor> + 1" by linarith+
  then show ?thesis by (auto simp: rne_frac)
qed

lemma rne_unique:
  assumes "\<bar>q - of_int k\<bar> < 1 / 2"
  shows "rne q = k"
proof -
  from assms have lo: "of_int k - 1 / 2 < q" and hi: "q < of_int k + 1 / 2" by linarith+
  show ?thesis
  proof (cases "of_int k \<le> q")
    case True
    with hi have "\<lfloor>q\<rfloor> = k" by (intro floor_unique) linarith+
    with hi show ?thesis by (simp add: rne_frac)
  next
    case False
    with lo have "\<lfloor>q\<rfloor> = k - 1" by (intro floor_unique) (simp, linarith)+
    with lo show ?thesis by (simp add: rne_frac)
  qed
qed

lemma rne_minus: "rne (- q) = - rne q"
proof (cases "q = of_int \<lfloor>q\<rfloor>")
  case True
  then obtain k where "q = of_int k" by metis
  then show ?thesis by (simp add: rne_of_int flip: of_int_minus)
next
  case False
  then have f: "of_int \<lfloor>q\<rfloor> < q" "q < of_int \<lfloor>q\<rfloor> + 1" by linarith+
  then have m: "\<lfloor>- q\<rfloor> = - \<lfloor>q\<rfloor> - 1" by (intro floor_unique) simp_all
  show ?thesis
    unfolding rne_frac[of "- q"] rne_frac[of q] m using f by auto
qed

subsection \<open>rnd\<close>

lemma ulp_uexp: "ulp x = 2 powi uexp x"
  by (simp add: ulp_def uexp_def)

lemma ulp_pos: "0 < ulp x"
  by (simp add: ulp_def)

lemma ulp_minus: "ulp (- x) = ulp x"
  by (simp add: ulp_def)

lemma rnd_0: "rnd 0 = 0"
  by (simp add: rnd_def)

lemma rnd_minus: "rnd (- x) = - rnd x"
  by (simp add: rnd_def ulp_minus rne_minus)

lemma uexp_ge: "- 1074 \<le> uexp x"
  by (simp add: uexp_def)

lemma uexp_mono: "0 < x \<Longrightarrow> x \<le> y \<Longrightarrow> uexp x \<le> uexp y"
  using flog2_mono[of x y] by (simp add: uexp_def)

lemma below_next:
  assumes "0 < x"
  shows "x < 2 powi (uexp x + 53)"
proof -
  have "x < 2 powi (flog2 x + 1)" by (rule flog2_bounds[OF assms])
  also have "\<dots> \<le> 2 powi (uexp x + 53)"
    using assms by (intro powi_mono) (simp add: uexp_def)
  finally show ?thesis .
qed

lemma rnd_nonneg:
  assumes "0 < x"
  shows "0 \<le> rnd x"
proof -
  have "0 \<le> x / ulp x" using assms ulp_pos[of x] by simp
  from rne_mono[OF this] have "0 \<le> rne (x / ulp x)" by (simp add: rne_def)
  then show ?thesis using assms ulp_pos[of x] by (simp add: rnd_def)
qed

lemma rnd_upper:
  assumes "0 < x"
  shows "rnd x \<le> 2 powi (uexp x + 53)"
proof -
  have u: "0 < ulp x" by (rule ulp_pos)
  have "x / ulp x \<le> 2 powi (uexp x + 53) / ulp x"
    using below_next[OF assms] u by (simp add: divide_right_mono)
  also have "\<dots> = of_int (2 ^ 53)"
    by (simp add: ulp_uexp power_int_add)
  finally have "rne (x / ulp x) \<le> rne (of_int (2 ^ 53))" by (rule rne_mono)
  then have "rne (x / ulp x) \<le> 2 ^ 53" by (simp only: rne_of_int)
  then have "(of_int (rne (x / ulp x)) :: rat) \<le> of_int (2 ^ 53)" by (simp only: of_int_le_iff)
  then have "of_int (rne (x / ulp x)) * ulp x \<le> of_int (2 ^ 53) * ulp x"
    using u by (simp add: mult_right_mono)
  also have "\<dots> = 2 powi (uexp x + 53)"
    by (simp add: ulp_uexp power_int_add)
  finally show ?thesis using assms by (simp add: rnd_def)
qed

lemma rnd_lower:
  assumes "0 < x" "- 1022 \<le> flog2 x"
  shows "2 powi (uexp x + 52) \<le> rnd x"
proof -
  have u: "0 < ulp x" by (rule ulp_pos)
  from assms have e: "uexp x + 52 = flog2 x" by (simp add: uexp_def)
  have "of_int (2 ^ 52) = 2 powi (uexp x + 52) / ulp x"
    by (simp add: ulp_uexp power_int_add)
  also have "\<dots> \<le> x / ulp x"
    using flog2_bounds(1)[OF assms(1)] u by (simp add: e divide_right_mono)
  finally have "rne (of_int (2 ^ 52)) \<le> rne (x / ulp x)" by (rule rne_mono)
  then have "2 ^ 52 \<le> rne (x / ulp x)" by (simp only: rne_of_int)
  then have "(of_int (2 ^ 52) :: rat) \<le> of_int (rne (x / ulp x))" by (simp only: of_int_le_iff)
  then have "of_int (2 ^ 52) * ulp x \<le> of_int (rne (x / ulp x)) * ulp x"
    using u by (simp add: mult_right_mono)
  moreover have "of_int (2 ^ 52) * ulp x = 2 powi (uexp x + 52)"
    by (simp add: ulp_uexp power_int_add)
  ultimately show ?thesis using assms by (simp add: rnd_def)
qed

lemma rnd_mono_pos:
  assumes "0 < x" "x \<le> y"
  shows "rnd x \<le> rnd y"
proof -
  have y: "0 < y" using assms by linarith
  have le: "uexp x \<le> uexp y" by (rule uexp_mono[OF assms])
  show ?thesis
  proof (cases "uexp x = uexp y")
    case True
    then have u: "ulp y = ulp x" by (simp add: ulp_uexp)
    have "x / ulp x \<le> y / ulp x" using assms ulp_pos[of x] by (simp add: divide_right_mono)
    from rne_mono[OF this] have "(of_int (rne (x / ulp x)) :: rat) \<le> of_int (rne (y / ulp x))"
      by (simp only: of_int_le_iff)
    then show ?thesis
      using assms y ulp_pos[of x] by (simp add: rnd_def u mult_right_mono)
  next
    case False
    with le have lt: "uexp x < uexp y" by simp
    then have n: "- 1022 \<le> flog2 y" using y
      by (simp add: uexp_def max_def split: if_splits)
    have "rnd x \<le> 2 powi (uexp x + 53)" by (rule rnd_upper[OF assms(1)])
    also have "\<dots> \<le> 2 powi (uexp y + 52)" using lt by (intro powi_mono) simp
    also have "\<dots> \<le> rnd y" by (rule rnd_lower[OF y n])
    finally show ?thesis .
  qed
qed

lemma rnd_mono:
  assumes "x \<le> y"
  shows "rnd x \<le> rnd y"
proof -
  consider "0 < x" | "x = 0" "0 < y" | "x = 0" "y = 0" | "x < 0" "0 \<le> y" | "x < 0" "y < 0"
    using assms by linarith
  then show ?thesis
  proof cases
    case 1
    then show ?thesis by (rule rnd_mono_pos[OF _ assms])
  next
    case 2
    then show ?thesis using rnd_nonneg[of y] by (simp add: rnd_0)
  next
    case 3
    then show ?thesis by simp
  next
    case 4
    then have "0 \<le> rnd (- x)" by (intro rnd_nonneg) simp
    then have "rnd x \<le> 0" by (simp add: rnd_minus)
    moreover have "0 \<le> rnd y" using 4 rnd_nonneg[of y] by (cases "y = 0") (simp_all add: rnd_0)
    ultimately show ?thesis by linarith
  next
    case 5
    then have "rnd (- y) \<le> rnd (- x)" using assms by (intro rnd_mono_pos) simp_all
    then show ?thesis by (simp add: rnd_minus)
  qed
qed

lemma quot_bounds:
  assumes "0 < x"
  shows "0 \<le> rne (x / ulp x)" and "rne (x / ulp x) \<le> 2 ^ 53"
proof -
  have u: "0 < ulp x" by (rule ulp_pos)
  have "0 \<le> x / ulp x" using assms u by simp
  from rne_mono[OF this] show "0 \<le> rne (x / ulp x)" by (simp add: rne_def)
  have "x / ulp x \<le> 2 powi (uexp x + 53) / ulp x"
    using below_next[OF assms] u by (simp add: divide_right_mono)
  also have "\<dots> = of_int (2 ^ 53)"
    by (simp add: ulp_uexp power_int_add)
  finally have "rne (x / ulp x) \<le> rne (of_int (2 ^ 53))" by (rule rne_mono)
  then show "rne (x / ulp x) \<le> 2 ^ 53" by (simp only: rne_of_int)
qed

lemma rnd_form:
  "\<exists>k. rnd x = of_int k * 2 powi uexp x \<and> \<bar>k\<bar> \<le> 2 ^ 53"
proof -
  consider "x = 0" | "0 < x" | "x < 0" by linarith
  then show ?thesis
  proof cases
    case 1
    then show ?thesis by (intro exI[of _ 0]) (simp add: rnd_0)
  next
    case 2
    let ?k = "rne (x / ulp x)"
    have r: "rnd x = of_int ?k * 2 powi uexp x" using 2 by (simp add: rnd_def ulp_uexp)
    from quot_bounds[OF 2] r show ?thesis by (intro exI[of _ ?k]) simp
  next
    case 3
    let ?k = "rne (- x / ulp (- x))"
    have x: "0 < - x" using 3 by simp
    have r: "rnd (- x) = of_int ?k * 2 powi uexp x"
      using x by (simp add: rnd_def ulp_uexp uexp_def)
    then have "rnd x = of_int (- ?k) * 2 powi uexp x"
      by (simp add: rnd_minus)
    with quot_bounds[OF x] show ?thesis by (intro exI[of _ "- ?k"]) simp
  qed
qed

lemma rnd_integral:
  assumes "x \<noteq> 0" "x / ulp x = of_int m"
  shows "rnd x = x"
proof -
  have "rnd x = of_int m * ulp x" using assms by (simp add: rnd_def rne_of_int)
  also have "\<dots> = x" using assms(2) ulp_pos[of x] by (simp add: field_simps)
  finally show ?thesis .
qed

lemma rnd_top:
  assumes "- 1074 \<le> e"
  shows "rnd (2 powi (e + 53)) = 2 powi (e + 53)"
proof -
  let ?x = "2 powi (e + 53) :: rat"
  have "flog2 ?x = e + 53"
    by (rule flog2_unique) (simp_all add: powi_less_iff)
  then have u: "uexp ?x = e + 1" using assms by (simp add: uexp_def)
  have "?x / 2 powi (e + 1) = 2 powi ((e + 53) - (e + 1))"
    by (rule power_int_diff[symmetric]) simp
  also have "\<dots> = of_int (2 ^ 52)" by simp
  finally have "?x / ulp ?x = of_int (2 ^ 52)" by (simp only: ulp_uexp u)
  then show ?thesis by (intro rnd_integral) simp_all
qed

lemma rnd_dyadic_pos:
  assumes "0 < k" "k \<le> 2 ^ 53" "- 1074 \<le> e"
  shows "rnd (of_int k * 2 powi e) = of_int k * 2 powi e"
proof (cases "k = 2 ^ 53")
  case True
  have "of_int k * 2 powi e = (2::rat) powi (e + 53)"
    by (simp add: True power_int_add)
  then show ?thesis using rnd_top[OF assms(3)] by simp
next
  case False
  let ?x = "of_int k * 2 powi e :: rat"
  have x: "0 < ?x" using assms(1) by simp
  have ax: "\<bar>?x\<bar> = ?x" using x by simp
  from False assms(2) have "k < 2 ^ 53" by simp
  then have "(of_int k :: rat) < of_int (2 ^ 53)" by (simp only: of_int_less_iff)
  then have "?x < of_int (2 ^ 53) * 2 powi e" by (simp add: mult_strict_right_mono)
  also have "\<dots> = 2 powi (e + 53)" by (simp add: power_int_add)
  finally have "2 powi flog2 ?x < (2::rat) powi (e + 53)"
    using flog2_bounds(1)[OF x] by linarith
  then have "flog2 ?x < e + 53" by (simp add: powi_less_iff)
  then have u: "uexp ?x \<le> e" using assms(3) by (simp add: uexp_def ax)
  define n where "n = nat (e - uexp ?x)"
  have "(2::rat) powi e / 2 powi uexp ?x = 2 powi (e - uexp ?x)"
    by (rule power_int_diff[symmetric]) simp
  also have "\<dots> = 2 ^ n" using u by (simp add: n_def power_int_def)
  finally have q: "(2::rat) powi e / 2 powi uexp ?x = 2 ^ n" .
  have "?x / ulp ?x = of_int k * (2 powi e / 2 powi uexp ?x)"
    by (simp only: ulp_uexp times_divide_eq_right)
  also have "\<dots> = of_int (k * 2 ^ n)" by (simp only: q) simp
  finally have "?x / ulp ?x = of_int (k * 2 ^ n)" .
  moreover have "?x \<noteq> 0" using assms(1) by simp
  ultimately show ?thesis by (intro rnd_integral)
qed

lemma rnd_dyadic:
  assumes "\<bar>k\<bar> \<le> 2 ^ 53" "- 1074 \<le> e"
  shows "rnd (of_int k * 2 powi e) = of_int k * 2 powi e"
proof -
  consider "k = 0" | "0 < k" | "k < 0" by linarith
  then show ?thesis
  proof cases
    case 1
    then show ?thesis by (simp add: rnd_0)
  next
    case 2
    with assms show ?thesis by (intro rnd_dyadic_pos) simp_all
  next
    case 3
    with assms have "rnd (of_int (- k) * 2 powi e) = of_int (- k) * 2 powi e"
      by (intro rnd_dyadic_pos) simp_all
    then show ?thesis using rnd_minus[of "of_int k * 2 powi e"] by simp
  qed
qed

lemma rnd_rnd: "rnd (rnd x) = rnd x"
proof -
  from rnd_form[of x] obtain k where k: "rnd x = of_int k * 2 powi uexp x" "\<bar>k\<bar> \<le> 2 ^ 53"
    by blast
  show ?thesis unfolding k(1) by (rule rnd_dyadic[OF k(2) uexp_ge])
qed

lemma rnd_of_int: "\<bar>n\<bar> \<le> 2 ^ 53 \<Longrightarrow> rnd (of_int n) = of_int n"
  using rnd_dyadic[of n 0] by simp

lemma rnd_1: "rnd 1 = 1"
  using rnd_of_int[of 1] by simp

lemma rnd_pow2: "- 1074 \<le> e \<Longrightarrow> rnd (2 powi e) = 2 powi e"
  using rnd_dyadic[of 1 e] by simp

lemma tiny_pos: "0 < tiny"
  by (simp only: tiny_def powi_pos)

lemma rnd_tiny: "rnd tiny = tiny"
  unfolding tiny_def by (rule rnd_pow2) simp

lemma powi_tiny:
  assumes "- 1074 \<le> e"
  shows "2 powi e = 2 ^ nat (e + 1074) * tiny"
proof -
  have "(2::rat) powi e = 2 powi ((e + 1074) + (- 1074))" by simp
  also have "\<dots> = 2 powi (e + 1074) * 2 powi (- 1074)"
    by (rule power_int_add) simp
  also have "2 powi (e + 1074) = (2::rat) ^ nat (e + 1074)"
    using assms by (simp add: power_int_def)
  finally show ?thesis by (simp only: tiny_def)
qed

lemma grid_rnd: "grid (rnd x)"
proof -
  from rnd_form[of x] obtain k where k: "rnd x = of_int k * 2 powi uexp x" by blast
  have "rnd x = of_int (k * 2 ^ nat (uexp x + 1074)) * tiny"
    unfolding k powi_tiny[OF uexp_ge] by simp
  then show ?thesis unfolding grid_def by blast
qed

lemma grid_diff: "grid a \<Longrightarrow> grid b \<Longrightarrow> grid (b - a)"
  unfolding grid_def
proof (elim exE)
  fix m n assume "a = of_int m * tiny" "b = of_int n * tiny"
  then have "b - a = of_int (n - m) * tiny" by (simp add: algebra_simps)
  then show "\<exists>k. b - a = of_int k * tiny" by blast
qed

lemma grid_pos:
  assumes "grid x" "0 < x"
  shows "tiny \<le> x"
proof -
  from assms(1) obtain m where m: "x = of_int m * tiny" unfolding grid_def by blast
  with assms(2) tiny_pos have "0 < (of_int m :: rat)" by (simp add: zero_less_mult_iff)
  then have "1 \<le> m" by simp
  then have "(1::rat) \<le> of_int m" by simp
  then have "1 * tiny \<le> of_int m * tiny"
    using tiny_pos by (intro mult_right_mono) simp_all
  then show ?thesis by (simp add: m)
qed

lemma rnd_grid_pos:
  assumes "grid x" "0 < x"
  shows "0 < rnd x"
proof -
  have "0 < rnd tiny" using tiny_pos by (simp only: rnd_tiny)
  also have "\<dots> \<le> rnd x" by (rule rnd_mono[OF grid_pos[OF assms]])
  finally show ?thesis .
qed

lemma rnd_diff_pos:
  assumes "rnd a = a" "rnd b = b" "a < b"
  shows "0 < rnd (b - a)"
proof -
  have "grid a" "grid b" using grid_rnd[of a] grid_rnd[of b] assms by simp_all
  then have "grid (b - a)" by (rule grid_diff)
  then show ?thesis using assms(3) by (intro rnd_grid_pos) simp_all
qed

subsection \<open>round64\<close>

lemma round64_finite: "\<bar>rnd x\<bar> < 2 ^ 1024 \<Longrightarrow> round64 x = Finite (rnd x)"
  by (simp add: round64_def)

lemma round64_between:
  assumes "0 \<le> x" "x \<le> y" "rnd y < 2 ^ 1024"
  shows "round64 x = Finite (rnd x)" and "0 \<le> rnd x" and "rnd x \<le> rnd y"
proof -
  show 0: "0 \<le> rnd x" using rnd_mono[OF assms(1)] by (simp add: rnd_0)
  show 1: "rnd x \<le> rnd y" by (rule rnd_mono[OF assms(2)])
  from 0 1 assms(3) show "round64 x = Finite (rnd x)" by (intro round64_finite) simp
qed

lemma round64_unit:
  assumes "0 \<le> x" "x \<le> 1"
  shows "round64 x = Finite (rnd x)" and "0 \<le> rnd x" and "rnd x \<le> 1"
  using round64_between[OF assms, unfolded rnd_1] by simp_all

subsection \<open>Minimum and maximum of a column\<close>

lemma finite_values_set: "set (finite_values xs) = {a. Finite a \<in> set xs}"
  by (induction xs rule: finite_values.induct) auto

lemma finite_cell_no_inf: "list_all finite_cell xs \<Longrightarrow> Pos_inf \<notin> set xs \<and> Neg_inf \<notin> set xs"
  by (auto simp: list_all_iff)

lemma fl_min_finite:
  assumes "list_all finite_cell xs" "finite_values xs \<noteq> []"
  shows "fl_min xs = Finite (Min (set (finite_values xs)))"
proof (cases "finite_values xs")
  case (Cons v vs)
  then show ?thesis
    using finite_cell_no_inf[OF assms(1)] Min.set_eq_fold[of v vs] by (simp add: fl_min_def)
qed (use assms in simp)

lemma fl_max_finite:
  assumes "list_all finite_cell xs" "finite_values xs \<noteq> []"
  shows "fl_max xs = Finite (Max (set (finite_values xs)))"
proof (cases "finite_values xs")
  case (Cons v vs)
  then show ?thesis
    using finite_cell_no_inf[OF assms(1)] Max.set_eq_fold[of v vs] by (simp add: fl_max_def)
qed (use assms in simp)

lemma fl_min_none:
  assumes "list_all finite_cell xs" "finite_values xs = []"
  shows "fl_min xs = NaN"
  using finite_cell_no_inf[OF assms(1)] assms(2) by (simp add: fl_min_def)

lemma fsub_NaN: "fsub x NaN = NaN"
  by (cases x) simp_all

lemma float_minmax_none:
  assumes "list_all finite_cell xs" "finite_values xs = []"
  shows "float_minmax xs = map (\<lambda>x. NaN) xs"
  by (simp add: float_minmax_def Let_def fl_min_none[OF assms] fsub_NaN)

lemma finite_values_all_NaN: "finite_values (map (\<lambda>x. NaN) xs) = []"
  by (induction xs) simp_all

lemma finite_cell_all_NaN: "list_all finite_cell (map (\<lambda>x. NaN) xs)"
  by (induction xs) simp_all

subsection \<open>Scaling a column in range\<close>

lemma scaled_facts:
  assumes "lo \<le> a" "a \<le> hi" "rnd (hi - lo) < 2 ^ 1024" "0 < rnd (hi - lo)"
  shows "fdiv (fsub (Finite a) (Finite lo)) (fsub (Finite hi) (Finite lo)) =
           Finite (scaled lo hi a)"
    and "0 \<le> scaled lo hi a" and "scaled lo hi a \<le> 1"
proof -
  let ?d = "rnd (hi - lo)"
  have n: "round64 (a - lo) = Finite (rnd (a - lo))" "0 \<le> rnd (a - lo)" "rnd (a - lo) \<le> ?d"
    using round64_between[of "a - lo" "hi - lo"] assms by simp_all
  have d: "round64 (hi - lo) = Finite ?d"
    using assms(3,4) by (intro round64_finite) simp
  have q: "0 \<le> rnd (a - lo) / ?d" "rnd (a - lo) / ?d \<le> 1"
    using n(2,3) assms(4) by simp_all
  from round64_unit[OF q] show "0 \<le> scaled lo hi a" "scaled lo hi a \<le> 1"
    by (simp_all add: scaled_def)
  show "fdiv (fsub (Finite a) (Finite lo)) (fsub (Finite hi) (Finite lo)) =
      Finite (scaled lo hi a)"
    using assms(4) round64_unit(1)[OF q] by (simp add: n(1) d scaled_def)
qed

lemma scaled_lo: "0 < rnd (hi - lo) \<Longrightarrow> scaled lo hi lo = 0"
  by (simp add: scaled_def rnd_0)

lemma scaled_hi: "0 < rnd (hi - lo) \<Longrightarrow> scaled lo hi hi = 1"
  by (simp add: scaled_def rnd_1)

lemma scaled_mono:
  assumes "0 < rnd (hi - lo)" "a \<le> b"
  shows "scaled lo hi a \<le> scaled lo hi b"
proof -
  have "rnd (a - lo) \<le> rnd (b - lo)" using assms(2) by (intro rnd_mono) simp
  then have "rnd (a - lo) / rnd (hi - lo) \<le> rnd (b - lo) / rnd (hi - lo)"
    using assms(1) by (simp add: divide_right_mono)
  then show ?thesis unfolding scaled_def by (rule rnd_mono)
qed

lemma float_minmax_spread:
  assumes fin: "list_all finite_cell xs"
    and ne: "finite_values xs \<noteq> []"
    and lo: "Min (set (finite_values xs)) = lo" and hi: "Max (set (finite_values xs)) = hi"
    and neq: "lo \<noteq> hi"
    and rng: "\<bar>rnd (hi - lo)\<bar> < 2 ^ 1024"
  shows "float_minmax xs = map (scaled_cell lo hi) xs" and "0 < rnd (hi - lo)"
proof -
  have S: "finite (set (finite_values xs))" "set (finite_values xs) \<noteq> {}" using ne by simp_all
  have mem: "lo \<in> set (finite_values xs)" "hi \<in> set (finite_values xs)"
    using Min_in[OF S] Max_in[OF S] lo hi by simp_all
  then have "finite_cell (Finite lo)" "finite_cell (Finite hi)"
    using fin by (auto simp: finite_values_set list_all_iff)
  then have fx: "rnd lo = lo" "rnd hi = hi" by (simp_all add: float64_def)
  have "lo \<le> hi" using Min_le[OF S(1) mem(2)] lo by simp
  with neq have "lo < hi" by simp
  from rnd_diff_pos[OF fx this] show d: "0 < rnd (hi - lo)" .
  from rng d have r: "rnd (hi - lo) < 2 ^ 1024" by simp
  have "fdiv (fsub x (Finite lo)) (fsub (Finite hi) (Finite lo)) = scaled_cell lo hi x"
    if "x \<in> set xs" for x
  proof (cases x)
    case (Finite a)
    with that have "a \<in> set (finite_values xs)" by (simp add: finite_values_set)
    then have "lo \<le> a" "a \<le> hi" using Min_le[OF S(1)] Max_ge[OF S(1)] lo hi by auto
    from scaled_facts(1)[OF this r d] show ?thesis by (simp add: Finite)
  next
    case NaN
    then show ?thesis by simp
  qed (use that finite_cell_no_inf[OF fin] in auto)
  then show "float_minmax xs = map (scaled_cell lo hi) xs"
    by (simp add: float_minmax_def Let_def fl_min_finite[OF fin ne] fl_max_finite[OF fin ne] lo hi)
qed

lemma float_minmax_flat:
  assumes fin: "list_all finite_cell xs"
    and ne: "finite_values xs \<noteq> []"
    and eq: "Min (set (finite_values xs)) = Max (set (finite_values xs))"
  shows "float_minmax xs = map (\<lambda>x. NaN) xs"
proof -
  let ?lo = "Min (set (finite_values xs))"
  have S: "finite (set (finite_values xs))" "set (finite_values xs) \<noteq> {}" using ne by simp_all
  have "fdiv (fsub x (Finite ?lo)) (fsub (Finite ?lo) (Finite ?lo)) = NaN" if "x \<in> set xs" for x
  proof (cases x)
    case (Finite a)
    with that have "a \<in> set (finite_values xs)" by (simp add: finite_values_set)
    then have "?lo \<le> a" "a \<le> ?lo" using Min_le[OF S(1)] Max_ge[OF S(1)] eq by auto
    then have "a = ?lo" by simp
    then show ?thesis by (simp add: Finite round64_def rnd_0)
  next
    case NaN
    then show ?thesis by simp
  qed (use that finite_cell_no_inf[OF fin] in auto)
  then show ?thesis
    by (simp add: float_minmax_def Let_def fl_min_finite[OF fin ne] fl_max_finite[OF fin ne]
        eq[symmetric])
qed

lemma float_in_range_iff:
  "float_in_range xs \<longleftrightarrow>
     list_all finite_cell xs \<and>
     (finite_values xs \<noteq> [] \<longrightarrow>
        \<bar>rnd (Max (set (finite_values xs)) - Min (set (finite_values xs)))\<bar> < 2 ^ 1024)"
proof (cases "finite_values xs")
  case Nil
  then show ?thesis by (simp add: float_in_range_def)
next
  case (Cons v vs)
  then show ?thesis
    using Min.set_eq_fold[of v vs] Max.set_eq_fold[of v vs] by (simp add: float_in_range_def)
qed

lemma int_in_range_iff:
  "int_in_range xs \<longleftrightarrow> (xs \<noteq> [] \<longrightarrow> Max (set xs) - Min (set xs) < 2 ^ 63)"
proof (cases xs)
  case Nil
  then show ?thesis by (simp add: int_in_range_def)
next
  case (Cons v vs)
  then show ?thesis
    using Min.set_eq_fold[of v vs] Max.set_eq_fold[of v vs] by (simp add: int_in_range_def)
qed

subsection \<open>A scaled column is a fixed point\<close>

lemma unit_fixed:
  assumes cells: "\<And>x. x \<in> set ys \<Longrightarrow> x = NaN \<or> (\<exists>a. x = Finite a \<and> rnd a = a \<and> 0 \<le> a \<and> a \<le> 1)"
    and zero: "Finite 0 \<in> set ys" and one: "Finite 1 \<in> set ys"
  shows "float_minmax ys = ys"
proof -
  have fin: "list_all finite_cell ys"
    unfolding list_all_iff
  proof
    fix x assume "x \<in> set ys"
    from cells[OF this] show "finite_cell x"
    proof
      assume "\<exists>a. x = Finite a \<and> rnd a = a \<and> 0 \<le> a \<and> a \<le> 1"
      then obtain a where a: "x = Finite a" "rnd a = a" "0 \<le> a" "a \<le> 1" by blast
      have "(1::rat) < 2 ^ 1024" by simp
      with a(3,4) have "\<bar>a\<bar> < 2 ^ 1024" by linarith
      with a show ?thesis by (simp add: float64_def)
    qed simp
  qed
  have v: "0 \<in> set (finite_values ys)" "1 \<in> set (finite_values ys)"
    using zero one by (simp_all add: finite_values_set)
  then have ne: "finite_values ys \<noteq> []" by auto
  have bnd: "0 \<le> a \<and> a \<le> 1" if "a \<in> set (finite_values ys)" for a
    using that cells[of "Finite a"] by (auto simp: finite_values_set)
  have lo: "Min (set (finite_values ys)) = 0"
    using v(1) bnd by (intro Min_eqI) auto
  have hi: "Max (set (finite_values ys)) = 1"
    using v(2) bnd by (intro Max_eqI) auto
  have rng: "\<bar>rnd (1 - 0)\<bar> < 2 ^ 1024" by (simp add: rnd_1)
  have "float_minmax ys = map (scaled_cell 0 1) ys"
    by (rule float_minmax_spread(1)[OF fin ne lo hi _ rng]) simp
  also have "\<dots> = ys"
  proof (rule map_idI)
    fix x assume "x \<in> set ys"
    from cells[OF this] show "scaled_cell 0 1 x = x"
      by (auto simp: scaled_def rnd_1)
  qed
  finally show ?thesis .
qed

lemma all_NaN_fixed: "float_minmax (map (\<lambda>x. NaN) xs) = map (\<lambda>x. NaN) xs"
  using float_minmax_none[OF finite_cell_all_NaN finite_values_all_NaN, of xs] by simp

lemma scaled_fixed: "rnd (scaled lo hi a) = scaled lo hi a"
  by (simp add: scaled_def rnd_rnd)

lemma float_minmax_twice:
  assumes "float_in_range xs"
  shows "float_minmax (float_minmax xs) = float_minmax xs"
proof -
  from assms have fin: "list_all finite_cell xs" by (simp add: float_in_range_iff)
  show ?thesis
  proof (cases "finite_values xs = []")
    case True
    then show ?thesis by (simp add: float_minmax_none[OF fin] all_NaN_fixed)
  next
    case ne: False
    define lo hi where "lo = Min (set (finite_values xs))" and "hi = Max (set (finite_values xs))"
    have S: "finite (set (finite_values xs))" "set (finite_values xs) \<noteq> {}"
      using ne by simp_all
    show ?thesis
    proof (cases "lo = hi")
      case True
      then show ?thesis
        using float_minmax_flat[OF fin ne] by (simp add: lo_def hi_def all_NaN_fixed)
    next
      case False
      from assms ne have rng: "\<bar>rnd (hi - lo)\<bar> < 2 ^ 1024"
        by (simp add: float_in_range_iff lo_def hi_def)
      have eq: "float_minmax xs = map (scaled_cell lo hi) xs" and d: "0 < rnd (hi - lo)"
        using float_minmax_spread[OF fin ne _ _ False rng] by (simp_all add: lo_def hi_def)
      from rng d have r: "rnd (hi - lo) < 2 ^ 1024" by simp
      have mem: "Finite lo \<in> set xs" "Finite hi \<in> set xs"
        using Min_in[OF S] Max_in[OF S] by (simp_all add: lo_def hi_def finite_values_set)
      show ?thesis
        unfolding eq
      proof (rule unit_fixed)
        fix y assume "y \<in> set (map (scaled_cell lo hi) xs)"
        then obtain x where x: "x \<in> set xs" "y = scaled_cell lo hi x" by auto
        show "y = NaN \<or> (\<exists>a. y = Finite a \<and> rnd a = a \<and> 0 \<le> a \<and> a \<le> 1)"
        proof (cases x)
          case (Finite a)
          with x(1) have "a \<in> set (finite_values xs)" by (simp add: finite_values_set)
          then have "lo \<le> a" "a \<le> hi"
            using Min_le[OF S(1)] Max_ge[OF S(1)] by (auto simp: lo_def hi_def)
          from scaled_facts(2,3)[OF this r d] show ?thesis
            by (simp add: x(2) Finite scaled_fixed)
        qed (simp_all add: x(2))
      next
        from mem(1) have "scaled_cell lo hi (Finite lo) \<in> set (map (scaled_cell lo hi) xs)"
          by (simp only: set_map) (rule imageI)
        then show "Finite 0 \<in> set (map (scaled_cell lo hi) xs)" by (simp add: scaled_lo[OF d])
      next
        from mem(2) have "scaled_cell lo hi (Finite hi) \<in> set (map (scaled_cell lo hi) xs)"
          by (simp only: set_map) (rule imageI)
        then show "Finite 1 \<in> set (map (scaled_cell lo hi) xs)" by (simp add: scaled_hi[OF d])
      qed
    qed
  qed
qed

subsection \<open>Integer columns\<close>

lemma wrap64_id: "0 \<le> n \<Longrightarrow> n < 2 ^ 63 \<Longrightarrow> wrap64 n = n"
  by (simp add: wrap64_def)

lemma rnd_int63:
  assumes "0 \<le> n" "n < 2 ^ 63"
  shows "rnd (of_int n) < 2 ^ 1024"
proof -
  have "(of_int n :: rat) \<le> 2 powi 63" using assms(2) by simp
  then have "rnd (of_int n) \<le> rnd (2 powi 63)" by (rule rnd_mono)
  also have "rnd (2 powi 63) = 2 powi 63" by (rule rnd_pow2) simp
  also have "\<dots> < (2::rat) ^ 1024" by simp
  finally show ?thesis .
qed

lemma int_minmax_spread:
  assumes ne: "xs \<noteq> []"
    and lo: "Min (set xs) = lo" and hi: "Max (set xs) = hi"
    and neq: "lo \<noteq> hi"
    and rng: "hi - lo < 2 ^ 63"
  shows "int_minmax xs = map (\<lambda>x. Finite (scaled (of_int lo) (of_int hi) (of_int x))) xs"
    and "0 < rnd (of_int hi - of_int lo)"
proof -
  have S: "finite (set xs)" "set xs \<noteq> {}" using ne by simp_all
  have mem: "lo \<in> set xs" "hi \<in> set xs" using Min_in[OF S] Max_in[OF S] lo hi by simp_all
  have "lo \<le> hi" using Min_le[OF S(1) mem(2)] lo by simp
  with neq have lt: "lo < hi" by simp
  then have "(1::rat) \<le> of_int hi - of_int lo"
    by (simp flip: of_int_diff) 
  from rnd_mono[OF this] show d: "0 < rnd (of_int hi - of_int lo)" by (simp add: rnd_1)
  have r: "rnd (of_int hi - of_int lo) < 2 ^ 1024"
    using rnd_int63[of "hi - lo"] lt rng by simp
  have wd: "wrap64 (hi - lo) = hi - lo" using lt rng by (intro wrap64_id) simp_all
  have "fdiv (round64 (of_int (wrap64 (x - lo)))) (round64 (of_int (wrap64 (hi - lo)))) =
      Finite (scaled (of_int lo) (of_int hi) (of_int x))" if "x \<in> set xs" for x
  proof -
    from that have b: "lo \<le> x" "x \<le> hi" using Min_le[OF S(1)] Max_ge[OF S(1)] lo hi by auto
    then have wx: "wrap64 (x - lo) = x - lo" using rng by (intro wrap64_id) simp_all
    have "(of_int lo :: rat) \<le> of_int x" "(of_int x :: rat) \<le> of_int hi" using b by simp_all
    from scaled_facts(1)[OF this r d] show ?thesis by (simp add: wx wd)
  qed
  moreover obtain v vs where c: "xs = v # vs" using ne by (cases xs) auto
  ultimately show "int_minmax xs = map (\<lambda>x. Finite (scaled (of_int lo) (of_int hi) (of_int x))) xs"
    using Min.set_eq_fold[of v vs] Max.set_eq_fold[of v vs] lo hi
    by (simp add: int_minmax_def Let_def c)
qed

lemma int_minmax_flat:
  assumes ne: "xs \<noteq> []" and eq: "Min (set xs) = Max (set xs)"
  shows "int_minmax xs = map (\<lambda>x. NaN) xs"
proof -
  let ?lo = "Min (set xs)"
  have S: "finite (set xs)" "set xs \<noteq> {}" using ne by simp_all
  have "fdiv (round64 (of_int (wrap64 (x - ?lo)))) (round64 (of_int (wrap64 (?lo - ?lo)))) = NaN"
    if "x \<in> set xs" for x
  proof -
    from that have "?lo \<le> x" "x \<le> ?lo" using Min_le[OF S(1)] Max_ge[OF S(1)] eq by auto
    then have "x = ?lo" by simp
    then show ?thesis by (simp add: wrap64_def round64_def rnd_0)
  qed
  moreover obtain v vs where c: "xs = v # vs" using ne by (cases xs) auto
  ultimately show ?thesis
    using Min.set_eq_fold[of v vs] Max.set_eq_fold[of v vs] eq
    by (simp add: int_minmax_def Let_def c)
qed

lemma int_minmax_twice:
  assumes "int_in_range xs"
  shows "float_minmax (int_minmax xs) = int_minmax xs"
proof (cases "xs = []")
  case True
  then show ?thesis by (simp add: int_minmax_def float_minmax_def)
next
  case ne: False
  define lo hi where "lo = Min (set xs)" and "hi = Max (set xs)"
  have S: "finite (set xs)" "set xs \<noteq> {}" using ne by simp_all
  show ?thesis
  proof (cases "lo = hi")
    case True
    then show ?thesis using int_minmax_flat[OF ne] by (simp add: lo_def hi_def all_NaN_fixed)
  next
    case False
    from assms ne have rng: "hi - lo < 2 ^ 63" by (simp add: int_in_range_iff lo_def hi_def)
    let ?f = "\<lambda>x. Finite (scaled (of_int lo) (of_int hi) (of_int x))"
    have eq: "int_minmax xs = map ?f xs" and d: "0 < rnd (of_int hi - of_int lo)"
      using int_minmax_spread[OF ne _ _ False rng] by (simp_all add: lo_def hi_def)
    have "lo \<le> hi" using Min_le[OF S(1) Max_in[OF S]] by (simp add: lo_def hi_def)
    with False have lt: "lo < hi" by simp
    have r: "rnd (of_int hi - of_int lo) < 2 ^ 1024"
      using rnd_int63[of "hi - lo"] lt rng by simp
    have mem: "lo \<in> set xs" "hi \<in> set xs" using Min_in[OF S] Max_in[OF S] by (simp_all add: lo_def hi_def)
    show ?thesis
      unfolding eq
    proof (rule unit_fixed)
      fix y assume "y \<in> set (map ?f xs)"
      then obtain x where x: "x \<in> set xs" "y = ?f x" by auto
      then have "lo \<le> x" "x \<le> hi" using Min_le[OF S(1)] Max_ge[OF S(1)] by (auto simp: lo_def hi_def)
      then have "(of_int lo :: rat) \<le> of_int x" "(of_int x :: rat) \<le> of_int hi" by simp_all
      from scaled_facts(2,3)[OF this r d]
      show "y = NaN \<or> (\<exists>a. y = Finite a \<and> rnd a = a \<and> 0 \<le> a \<and> a \<le> 1)"
        by (simp add: x(2) scaled_fixed)
    next
      from mem(1) have "?f lo \<in> set (map ?f xs)" by (simp only: set_map) (rule imageI)
      then show "Finite 0 \<in> set (map ?f xs)" by (simp add: scaled_lo[OF d])
    next
      from mem(2) have "?f hi \<in> set (map ?f xs)" by (simp only: set_map) (rule imageI)
      then show "Finite 1 \<in> set (map ?f xs)" by (simp add: scaled_hi[OF d])
    qed
  qed
qed

lemma scale_twice: "in_range c \<Longrightarrow> scale (scale c) = scale c"
  by (cases c) (simp_all add: int_minmax_twice float_minmax_twice)

section \<open>Lemmas about tables\<close>

subsection \<open>Dropping rows\<close>

lemma keep_all: "length xs = n \<Longrightarrow> keep (replicate n True) xs = xs"
  unfolding keep_def
proof (induction xs arbitrary: n)
  case Nil
  then show ?case by simp
next
  case (Cons x xs)
  then show ?case by (cases n) auto
qed

lemma length_keep:
  "length m \<le> length xs \<Longrightarrow> length (keep m xs) = length (filter (\<lambda>b. b) m)"
  unfolding keep_def
proof (induction m arbitrary: xs)
  case Nil
  then show ?case by simp
next
  case (Cons b m)
  then show ?case by (cases xs) auto
qed

lemma set_keep: "set (keep m xs) = {xs ! i | i. i < length m \<and> i < length xs \<and> m ! i}"
  unfolding keep_def by (force simp: set_zip image_iff)

lemma notna_take_rows: "notna (take_rows m c) = keep m (notna c)"
  by (cases c) (simp_all add: keep_def zip_map2 filter_map comp_def case_prod_unfold)

lemma col_len_take_rows:
  "length m \<le> col_len c \<Longrightarrow> col_len (take_rows m c) = length (filter (\<lambda>b. b) m)"
  by (cases c) (simp_all add: length_keep)

lemma length_notna: "length (notna c) = col_len c"
  by (cases c) simp_all

lemma length_complete_rows: "length (complete_rows fr) = nrows fr"
  by (simp add: complete_rows_def)

lemma notna_nth: "list_all (\<lambda>b. b) (notna c) \<Longrightarrow> i < col_len c \<Longrightarrow> notna c ! i"
  by (simp add: list_all_length length_notna)

lemma complete_rows_all:
  assumes "rectangular fr" "no_missing fr"
  shows "complete_rows fr = replicate (nrows fr) True"
proof -
  have "list_all (\<lambda>(n, c). cell_present c i) fr" if "i < nrows fr" for i
    unfolding list_all_iff
  proof (intro ballI)
    fix p assume p: "p \<in> set fr"
    obtain n c where nc: "p = (n, c)" by (cases p)
    from assms p nc have "col_len c = nrows fr" "list_all (\<lambda>b. b) (notna c)"
      by (auto simp: rectangular_def no_missing_def list_all_iff)
    with that show "case p of (n, c) \<Rightarrow> cell_present c i"
      by (simp add: nc cell_present_def notna_nth)
  qed
  then have "complete_rows fr = map (\<lambda>i. True) [0..<nrows fr]"
    unfolding complete_rows_def by simp
  then show ?thesis by (simp add: map_replicate_const)
qed

lemma take_rows_all: "col_len c = n \<Longrightarrow> take_rows (replicate n True) c = c"
  by (cases c) (simp_all add: keep_all)

lemma dropna_clean: "rectangular fr \<Longrightarrow> no_missing fr \<Longrightarrow> dropna fr = fr"
  unfolding dropna_def
  by (auto simp: complete_rows_all rectangular_def list_all_iff take_rows_all intro!: map_idI)

lemma nrows_dropna:
  "rectangular fr \<Longrightarrow> fr \<noteq> [] \<Longrightarrow>
     nrows (dropna fr) = length (filter (\<lambda>b. b) (complete_rows fr))"
  by (cases fr)
    (auto simp: dropna_def nrows_def rectangular_def col_len_take_rows length_complete_rows)

lemma rectangular_dropna: "rectangular fr \<Longrightarrow> rectangular (dropna fr)"
proof (cases "fr = []")
  case True
  then show ?thesis by (simp add: dropna_def rectangular_def)
next
  case False
  assume r: "rectangular fr"
  show ?thesis
    unfolding rectangular_def nrows_dropna[OF r False]
    using r
    by (auto simp: dropna_def rectangular_def list_all_iff col_len_take_rows
        length_complete_rows)
qed

lemma no_missing_dropna: "no_missing (dropna fr)"
  unfolding no_missing_def dropna_def
  by (auto simp: list_all_iff notna_take_rows set_keep complete_rows_def cell_present_def
      dest!: bspec)

lemma dropna_dropna: "rectangular fr \<Longrightarrow> dropna (dropna fr) = dropna fr"
  by (rule dropna_clean[OF rectangular_dropna no_missing_dropna])

subsection \<open>Scaling by the formula\<close>









lemma is_numeric_scale: "is_numeric (scale c) = is_numeric c"
  by (cases c) simp_all

subsection \<open>Scaling the selected columns\<close>

lemma names_scale_cols: "map fst (scale_cols picks fr) = map fst fr"
  by (simp add: scale_cols_def case_prod_unfold comp_def)

lemma numeric_cols_scale_cols: "numeric_cols (scale_cols picks fr) = numeric_cols fr"
  by (induction fr) (auto simp: numeric_cols_def scale_cols_def is_numeric_scale split: if_splits)

lemma set_multiselect: "set (multiselect options picks) = set picks \<inter> set options"
  by (auto simp: multiselect_def)

lemma distinct_multiselect: "distinct (multiselect options picks)"
  by (simp add: multiselect_def)

lemma normalize_loop_scale:
  assumes "distinct cols" "set cols \<subseteq> set (map fst fr)"
    and "\<And>n c. (n, c) \<in> set fr \<Longrightarrow> n \<in> set cols \<Longrightarrow> is_numeric c"
  shows "normalize_loop cols fr = (None, scale_cols cols fr)"
  using assms
proof (induction cols arbitrary: fr)
  case Nil
  then show ?case by (simp add: scale_cols_def case_prod_unfold)
next
  case (Cons col cols)
  let ?fr = "map (\<lambda>(n, c). if n = col then (n, scale c) else (n, c)) fr"
  have names: "map fst ?fr = map fst fr" by (induction fr) auto
  have num: "\<not> list_ex (\<lambda>(n, c). n = col \<and> \<not> is_numeric c) fr"
    using Cons.prems(3) by (auto simp: list_ex_iff)
  have "normalize_loop cols ?fr = (None, scale_cols cols ?fr)"
  proof (rule Cons.IH)
    show "distinct cols" using Cons.prems(1) by simp
    show "set cols \<subseteq> set (map fst ?fr)" using Cons.prems(2) by (simp only: names) simp
    fix n c assume "(n, c) \<in> set ?fr" "n \<in> set cols"
    then obtain c' where "(n, c') \<in> set fr" "is_numeric c = is_numeric c'"
      by (auto simp: is_numeric_scale split: if_splits)
    with Cons.prems(3)[of n c'] \<open>n \<in> set cols\<close> show "is_numeric c" by simp
  qed
  moreover have "scale_cols cols ?fr = scale_cols (col # cols) fr"
    using Cons.prems(1) by (auto simp: scale_cols_def)
  ultimately show ?case using Cons.prems(2) num by simp
qed

lemma normalize_selected_scale:
  assumes "cols = multiselect (numeric_cols (heap w r)) picks"
    and "\<And>n c. (n, c) \<in> set (heap w r) \<Longrightarrow> n \<in> set cols \<Longrightarrow> is_numeric c"
  shows "normalize_selected cols r w =
     (None, w\<lparr>heap := (heap w)(r := scale_cols cols (heap w r))\<rparr>)"
proof -
  have sub: "set cols \<subseteq> set (map fst (heap w r))"
    unfolding assms(1) by (auto simp: set_multiselect numeric_cols_def)
  have d: "distinct cols" unfolding assms(1) by (rule distinct_multiselect)
  have "normalize_loop cols (heap w r) = (None, scale_cols cols (heap w r))"
    using assms(2) by (intro normalize_loop_scale d sub)
  then show ?thesis by (simp add: normalize_selected_def)
qed

lemma scale_cols_twice:
  assumes "\<And>n c. (n, c) \<in> set fr \<Longrightarrow> n \<in> set picks \<Longrightarrow> in_range c"
  shows "scale_cols picks (scale_cols picks fr) = scale_cols picks fr"
  using assms by (auto simp: scale_cols_def scale_twice)


lemma picked_after_scale:
  assumes "\<And>n c. (n, c) \<in> set fr \<Longrightarrow> n \<in> set picks \<Longrightarrow> is_numeric c"
    and "(n, c) \<in> set (scale_cols picks fr)" "n \<in> set picks"
  shows "is_numeric c"
  using assms by (auto simp: scale_cols_def is_numeric_scale)

subsection \<open>Rounding particular numbers\<close>

lemma round64_dyadic:
  assumes "\<bar>k\<bar> \<le> 2 ^ 53" "- 1074 \<le> e" "e \<le> 970"
  shows "round64 (of_int k * 2 powi e) = Finite (of_int k * 2 powi e)"
proof -
  let ?x = "of_int k * 2 powi e :: rat"
  have r: "rnd ?x = ?x" by (rule rnd_dyadic[OF assms(1,2)])
  have "(of_int \<bar>k\<bar> :: rat) \<le> of_int (2 ^ 53)" using assms(1) by (simp only: of_int_le_iff)
  then have "\<bar>?x\<bar> \<le> of_int (2 ^ 53) * 2 powi e"
    by (simp add: abs_mult mult_right_mono)
  also have "\<dots> = (2::rat) powi (e + 53)" by (simp add: power_int_add)
  also have "\<dots> \<le> 2 powi 1023" using assms(3) by (intro powi_mono) simp
  also have "\<dots> < (2::rat) ^ 1024" by simp
  finally show ?thesis by (simp add: round64_def r)
qed

lemma round64_nearest:
  assumes "2 powi e \<le> \<bar>x\<bar>" "\<bar>x\<bar> < 2 powi (e + 1)" "- 1022 \<le> e" "e \<le> 1022"
    and "\<bar>x / 2 powi (e - 52) - of_int k\<bar> < 1 / 2"
  shows "round64 x = Finite (of_int k * 2 powi (e - 52))"
proof -
  have f: "flog2 \<bar>x\<bar> = e" by (rule flog2_unique[OF assms(1,2)])
  then have u: "ulp x = 2 powi (e - 52)" using assms(3) by (simp add: ulp_def)
  have "0 < \<bar>x\<bar>" using assms(1) powi_pos[of e] by linarith
  then have nz: "x \<noteq> 0" by simp
  have r: "rnd x = of_int k * 2 powi (e - 52)"
    using nz rne_unique[OF assms(5)] by (simp add: rnd_def u)
  have "\<bar>rnd x\<bar> = rnd \<bar>x\<bar>" using rnd_nonneg[of x] rnd_nonneg[of "- x"] nz
    by (cases "0 < x") (simp_all add: rnd_minus abs_if)
  also have "\<dots> \<le> 2 powi (uexp \<bar>x\<bar> + 53)" using nz by (intro rnd_upper) simp
  also have "\<dots> = (2::rat) powi (e + 1)" using assms(3) by (simp add: uexp_def f add.commute)
  also have "\<dots> \<le> 2 powi 1023" using assms(4) by (intro powi_mono) simp
  also have "\<dots> < (2::rat) ^ 1024" by simp
  finally show ?thesis by (simp add: round64_def r)
qed

lemma round64_0: "round64 0 = Finite 0"
  by (simp add: round64_def rnd_0)

lemma round64_1: "round64 1 = Finite 1"
  by (simp add: round64_def rnd_1)

lemma round64_9e18: "round64 9000000000000000000 = Finite 9000000000000000000"
  using round64_dyadic[of 34332275390625 18] by simp

lemma round64_wrapped: "round64 (- 446744073709551616) = Finite (- 446744073709551616)"
  using round64_dyadic[of "- 852096698207" 19] by simp

lemma round64_quot:
  "round64 (9000000000000000000 / - 446744073709551616) =
     Finite (- (1417632006486839 / 70368744177664))"
  using round64_nearest[of 4 "9000000000000000000 / - 446744073709551616" "- 5670528025947356"]
  by simp

lemma fdiv_finite: "b \<noteq> 0 \<Longrightarrow> fdiv (Finite a) (Finite b) = round64 (a / b)"
  by simp

lemma big_first:
  "int_minmax [- 9000000000000000000, 0, 9000000000000000000] =
     [Finite 0, Finite (- (1417632006486839 / 70368744177664)), Finite 1]"
proof -
  have "int_minmax [- 9000000000000000000, 0, 9000000000000000000] =
    [fdiv (Finite 0) (round64 (- 446744073709551616)),
     fdiv (round64 9000000000000000000) (round64 (- 446744073709551616)),
     fdiv (round64 (- 446744073709551616)) (round64 (- 446744073709551616))]"
    by (simp add: int_minmax_def wrap64_def round64_0)
  also have "\<dots> = [round64 (0 / - 446744073709551616),
     round64 (9000000000000000000 / - 446744073709551616),
     round64 (- 446744073709551616 / - 446744073709551616)]"
    by (simp only: round64_9e18 round64_wrapped) (simp only: fdiv_finite)
  also have "\<dots> = [Finite 0, Finite (- (1417632006486839 / 70368744177664)), Finite 1]"
    by (simp only: round64_quot) (simp add: round64_0 round64_1)
  finally show ?thesis .
qed

lemma round64_spread:
  "round64 (1 - - (1417632006486839 / 70368744177664)) =
     Finite (1488000750664503 / 70368744177664)"
  using round64_dyadic[of 1488000750664503 "- 46"] by simp

lemma round64_low:
  "round64 (0 - - (1417632006486839 / 70368744177664)) =
     Finite (1417632006486839 / 70368744177664)"
  using round64_dyadic[of 1417632006486839 "- 46"] by simp

lemma round64_ratio:
  "round64 (1417632006486839 / 1488000750664503) =
     Finite (8581241606647693 / 9007199254740992)"
  using round64_nearest[of "- 1" "1417632006486839 / 1488000750664503" 8581241606647693]
  by simp

lemma big_second:
  "float_minmax [Finite 0, Finite (- (1417632006486839 / 70368744177664)), Finite 1] =
     [Finite (8581241606647693 / 9007199254740992), Finite 0, Finite 1]"
proof -
  let ?v = "- (1417632006486839 / 70368744177664) :: rat"
  have m: "fl_min [Finite 0, Finite ?v, Finite 1] = Finite ?v"
    "fl_max [Finite 0, Finite ?v, Finite 1] = Finite 1"
    by (simp_all add: fl_min_def fl_max_def)
  have "float_minmax [Finite 0, Finite ?v, Finite 1] =
    [fdiv (round64 (0 - ?v)) (round64 (1 - ?v)),
     fdiv (round64 (?v - ?v)) (round64 (1 - ?v)),
     fdiv (round64 (1 - ?v)) (round64 (1 - ?v))]"
    unfolding float_minmax_def m Let_def by (simp only: list.map fsub.simps)
  also have "\<dots> = [Finite (8581241606647693 / 9007199254740992), Finite 0, Finite 1]"
    by (simp only: round64_spread round64_low)
      (simp add: round64_0 round64_1 round64_ratio)
  finally show ?thesis .
qed

lemma rnd_small:
  "rnd 2 = 2" "rnd 4 = 4" "rnd 5 = 5" "rnd 8 = 8" "rnd 10 = 10"
  "rnd (1 / 2) = 1 / 2" "rnd (1 / 4) = 1 / 4"
  using rnd_of_int[of 2] rnd_of_int[of 4] rnd_of_int[of 5] rnd_of_int[of 8] rnd_of_int[of 10]
    rnd_dyadic[of 1 "- 1"] rnd_dyadic[of 1 "- 2"]
  by simp_all


lemma round64_small:
  "round64 5 = Finite 5" "round64 10 = Finite 10" "round64 (1 / 2) = Finite (1 / 2)"
  by (simp_all add: round64_def rnd_small)


lemma scale_big_column:
  "scale big_column =
     FloatCol [Finite 0, Finite (- (1417632006486839 / 70368744177664)), Finite 1]"
  by (simp only: big_column_def scale.simps big_first)

lemma scale_scale_big_column:
  "scale (scale big_column) =
     FloatCol [Finite (8581241606647693 / 9007199254740992), Finite 0, Finite 1]"
  by (simp only: scale_big_column scale.simps big_second)


lemma normalize_big:
  "normalize_selected [''x''] 0 w_big =
     (None, w_big\<lparr>heap := (heap w_big)(0 := [(''x'', scale big_column)])\<rparr>)"
  by (simp add: normalize_selected_def w_big_def empty_world_def big_column_def)

section \<open>Lemmas about the script\<close>

subsection \<open>The dataset state\<close>

lemma session_dataset_state:
  assumes "keeps_session refresh_data" "stale_free (session_state w)"
  shows "session_state (dataset_state refresh_data w) =
           (session_state w)\<lparr>df := Some (current (session_state w))\<rparr>"
proof -
  from assms(1) have k: "\<And>v. session_state (refresh_data v) = session_state v"
    by (simp add: keeps_session_def)
  show ?thesis
    using assms(2)
    by (cases "uploaded_df (session_state w)"; cases "cleaned_df (session_state w)";
        cases "df (session_state w)")
       (auto simp: dataset_state_def set_df_def current_def stale_free_def k Let_def)
qed








subsection \<open>What the branches change\<close>

lemma save_and_remember_frame:
  "save_and_remember inp r w steps ev = (res, w', ev') \<Longrightarrow>
     uploaded_df (session_state w') = uploaded_df (session_state w) \<and> heap w' = heap w"
  by (auto simp: save_and_remember_def Let_def split: if_splits)

lemma normalize_selected_frame:
  "normalize_selected cols r w = (x, w') \<Longrightarrow>
     session_state w' = session_state w \<and> (\<forall>q. q \<noteq> r \<longrightarrow> heap w' q = heap w q)"
  by (auto simp: normalize_selected_def split: prod.splits)

lemma drop_missing_values_frame:
  "session_state (drop_missing_values r w) = session_state w \<and>
   (\<forall>q. q \<noteq> r \<longrightarrow> heap (drop_missing_values r w) q = heap w q)"
  by (simp add: drop_missing_values_def)

text \<open>
  The cleaning block never assigns the uploaded slot, and of the tables it changes only
  the one that the variable \<^verbatim>\<open>df\<close> refers to.
\<close>

lemma cleaning_block_frame:
  assumes "cleaning_block inp dfv w ev0 = (res, w', ev)"
  shows "uploaded_df (session_state w') = uploaded_df (session_state w) \<and>
         (\<forall>q. dfv \<noteq> Ref q \<longrightarrow> heap w' q = heap w q)"
proof (cases dfv)
  case PyNone
  with assms show ?thesis by (simp add: cleaning_block_def)
next
  case (Ref r)
  let ?w1 = "if drop_button inp then drop_missing_values r w else w"
  have w1: "session_state ?w1 = session_state w" "\<And>q. q \<noteq> r \<Longrightarrow> heap ?w1 q = heap w q"
    using drop_missing_values_frame[of r w] by simp_all
  show ?thesis
  proof (cases "normalize_button inp")
    case False
    with assms Ref obtain steps ev1 where "save_and_remember inp r ?w1 steps ev1 = (res, w', ev)"
      by (auto simp: cleaning_block_def Let_def split: if_splits)
    from save_and_remember_frame[OF this] w1 Ref show ?thesis by simp
  next
    case True
    obtain x w2 where n: "normalize_selected
        (multiselect (numeric_cols (heap ?w1 r)) (normalize_picks inp)) r ?w1 = (x, w2)"
      by (cases "normalize_selected
        (multiselect (numeric_cols (heap ?w1 r)) (normalize_picks inp)) r ?w1")
    from normalize_selected_frame[OF n] w1
    have w2: "session_state w2 = session_state w" "\<And>q. q \<noteq> r \<Longrightarrow> heap w2 q = heap w q"
      by simp_all
    show ?thesis
    proof (cases x)
      case (Some a)
      with assms Ref True n have "w' = w2"
        by (auto simp: cleaning_block_def Let_def split: if_splits)
      with w2 Ref show ?thesis by simp
    next
      case None
      with assms Ref True n obtain steps ev1 where
        "save_and_remember inp r w2 steps ev1 = (res, w', ev)"
        by (auto simp: cleaning_block_def Let_def split: if_splits)
      from save_and_remember_frame[OF this] w2 Ref show ?thesis by simp
    qed
  qed
qed

text \<open>
  Past line 123 the table that line 149 or 161 changes is the one that line 137 has just
  stored in the uploaded slot. The file parses to three rows and the button is pressed:
  when showing the head raises, in either reading, and in the second reading also when
  it does not, the row with the missing cell goes from that table, and both slots refer
  to it. No run comes here (\<open>main_navigation_world\<close> below).
\<close>

lemma cleaning_in_place:
  "read_csv cx_file = Inr [(''x'', FloatCol [Finite 1, NaN, Finite 3])] \<and>
   uploaded_df (session_state (fst (snd (upload_rest rd cx_inp PyNone empty_world)))) =
     Some (Ref 0) \<and>
   cleaned_df (session_state (fst (snd (upload_rest rd cx_inp PyNone empty_world)))) =
     Some (Ref 0) \<and>
   heap (fst (snd (upload_rest rd cx_inp PyNone empty_world))) 0 =
     [(''x'', FloatCol [Finite 1, Finite 3])] \<and>
   heap (fst (snd (upload_rest Cleaning_after_try (cx_inp\<lparr>write_raises := None\<rparr>) PyNone
     empty_world))) 0 = [(''x'', FloatCol [Finite 1, Finite 3])] \<and>
   heap (fst (snd (upload_rest Cleaning_in_handler (cx_inp\<lparr>write_raises := None\<rparr>) PyNone
     empty_world))) 0 = [(''x'', FloatCol [Finite 1, NaN, Finite 3])]"
  by (simp add: upload_rest_def try_body_def cleaning_block_def save_and_remember_def
      drop_missing_values_def cx_inp_def cx_file_def cx_frame_def no_widgets_def endswith_def
      empty_world_def empty_session_def Let_def dropna_def complete_rows_def nrows_def
      cell_present_def keep_def upt_rec remember_def recall_def multiselect_def
      numeric_cols_def)

lemma navigate_frame:
  "c \<noteq> Upload_Dataset \<Longrightarrow> fst (snd (navigate rd c inp returned w)) = w"
  by (cases c)
    (simp_all add: guarded_call_def cleaned_call_def generate_report_def
      split: option.splits pyval.splits)

lemma sidebar_none:
  "df (session_state w) = Some PyNone \<Longrightarrow> sidebar w = [Sidebar_error ''No Dataset Loaded'']"
  by (simp add: sidebar_def)

lemma stage_warns:
  assumes "choice inp \<in> analysis_stages" and "df (session_state w) = Some PyNone"
  shows "\<exists>msg. main_navigation rd inp returned w = (Inr (), w, [St_warning msg])"
  using assms
  by (auto simp: analysis_stages_def main_navigation_def guarded_call_def generate_report_def)

text \<open>
  Line 123 stops every run of the upload branch, in either reading of the lines below
  it, so no branch changes the world, and a session that holds no dataset never comes to
  hold one.
\<close>

lemma main_navigation_world: "fst (snd (main_navigation rd inp returned w)) = w"
proof (cases "choice inp = Upload_Dataset")
  case True
  then show ?thesis
    by (simp add: main_navigation_def upload_branch_def resolve_name_def script_names_def
        builtin_names_def)
next
  case False
  then show ?thesis by (simp add: main_navigation_def navigate_frame)
qed

lemma world_run:
  "fst (snd (run rd refresh_data inp returned w)) = dataset_state refresh_data w"
proof -
  have "fst (snd (run rd refresh_data inp returned w)) =
      fst (snd (main_navigation rd inp returned (dataset_state refresh_data w)))"
    by (simp add: run_def Let_def split: prod.splits)
  then show ?thesis by (simp add: main_navigation_world)
qed

lemma session_run:
  "session_state (fst (snd (run rd refresh_data inp returned w))) =
     session_state (dataset_state refresh_data w)"
  by (simp add: world_run)

lemma stale_free_run:
  assumes "keeps_session refresh_data" "stale_free (session_state w)"
  shows "stale_free (session_state (fst (snd (run rd refresh_data inp returned w))))"
  unfolding session_run session_dataset_state[OF assms]
  by (simp add: stale_free_def current_def)

lemma run_never_loads:
  assumes "keeps_session refresh_data"
    and "uploaded_df (session_state w) = None" "cleaned_df (session_state w) = None"
    and "stale_free (session_state w)"
  shows "uploaded_df (session_state (fst (snd (run rd refresh_data inp returned w)))) = None \<and>
         cleaned_df (session_state (fst (snd (run rd refresh_data inp returned w)))) = None \<and>
         df (session_state (fst (snd (run rd refresh_data inp returned w)))) = Some PyNone"
  unfolding session_run session_dataset_state[OF assms(1,4)]
  using assms(2,3) by (simp add: current_def)

lemma stale_free_empty: "stale_free empty_session"
  by (simp add: stale_free_def empty_session_def)


section \<open>The claims\<close>

subsection \<open>C1: which dataset a stage is given\<close>




subsection \<open>C2: the cleaning stage\<close>

text \<open>
  Claim C2 says that every invocation of the cleaning stage reads the current dataset,
  warns and stops if there is none, and at its end commits the table as cleaned and the
  list of steps under \<^verbatim>\<open>"cleaning_steps"\<close>. The menu offers the stage (line 77), and no
  branch of lines 122 to 248 answers to it: on a fresh session the run shows no warning,
  and with a dataset uploaded and the button pressed nothing is cleaned or committed.
\<close>

theorem data_cleaning_has_no_branch:
  "run rd (\<lambda>w. w) (no_widgets Data_Cleaning) PyNone empty_world =
     (Inr (), set_df PyNone empty_world, [Sidebar_error ''No Dataset Loaded'']) \<and>
   run rd (\<lambda>w. w) ((no_widgets Data_Cleaning)\<lparr>drop_button := True\<rparr>) PyNone w_uploaded =
     (Inr (), set_df (Ref 0) w_uploaded,
      [Sidebar_success ''Dataset Loaded'', Sidebar_rows 3, Sidebar_columns 1])"
  by (simp add: run_def dataset_state_def main_navigation_def sidebar_def set_df_def
      no_widgets_def empty_world_def empty_session_def w_uploaded_def cx_frame_def nrows_def)

subsection \<open>C3: the uploaded dataset\<close>



subsection \<open>C4: the upload branch\<close>

text \<open>
  Claim C4 says that the name \<^verbatim>\<open>upload_data\<close> is bound nowhere in the program, so that
  every entry into the upload branch fails with a name error before any file is parsed
  or any session state is written.
\<close>

theorem upload_branch_name_error:
  "''upload_data'' \<notin> set script_names \<and> ''upload_data'' \<notin> set builtin_names \<and>
   main_navigation rd (inp\<lparr>choice := Upload_Dataset\<rparr>) returned w =
     (Inl (NameError ''upload_data''), w, [])"
  by (simp add: main_navigation_def upload_branch_def resolve_name_def script_names_def
      builtin_names_def)

theorem upload_branch_name_error_witness:
  "main_navigation Cleaning_in_handler (cx_inp\<lparr>choice := Upload_Dataset\<rparr>) (Ref 0) w_uploaded =
     (Inl (NameError ''upload_data''), w_uploaded, []) \<and>
   main_navigation Cleaning_after_try (cx_inp\<lparr>choice := Upload_Dataset\<rparr>) (Ref 0) w_uploaded =
     (Inl (NameError ''upload_data''), w_uploaded, [])"
  using upload_branch_name_error[of Cleaning_in_handler cx_inp "Ref 0" w_uploaded]
    upload_branch_name_error[of Cleaning_after_try cx_inp "Ref 0" w_uploaded]
  by blast

subsection \<open>C5: a stage without a dataset\<close>

text \<open>
  Claim C5 says that each stage that needs the current dataset (EDA, visualization,
  modeling, export, report), when there is none, shows a warning, does nothing more and
  leaves the session state (uploaded, cleaned, memory log) unchanged. First for the
  branch, entered with \<^verbatim>\<open>st.session_state.df\<close> holding \<^verbatim>\<open>None\<close>: one warning, and the
  world as it was. Then for the whole run, from a session whose current dataset is
  absent: lines 92 to 113 show that no dataset is loaded and leave both slots alone, and
  the branch adds its warning and nothing else.
\<close>

theorem missing_dataset_warning:
  assumes "choice inp \<in> analysis_stages"
  shows "(df (session_state w) = Some PyNone \<longrightarrow>
            (\<exists>msg. main_navigation rd inp returned w = (Inr (), w, [St_warning msg]))) \<and>
         (keeps_session refresh_data \<and> stale_free (session_state w) \<and>
          current (session_state w) = PyNone \<longrightarrow>
            (\<exists>msg. run rd refresh_data inp returned w =
               (Inr (), dataset_state refresh_data w,
                [Sidebar_error ''No Dataset Loaded'', St_warning msg])) \<and>
            uploaded_df (session_state (dataset_state refresh_data w)) =
              uploaded_df (session_state w) \<and>
            cleaned_df (session_state (dataset_state refresh_data w)) =
              cleaned_df (session_state w))"
proof (intro conjI impI)
  assume "df (session_state w) = Some PyNone"
  then show "\<exists>msg. main_navigation rd inp returned w = (Inr (), w, [St_warning msg])"
    by (rule stage_warns[OF assms])
next
  assume h: "keeps_session refresh_data \<and> stale_free (session_state w) \<and>
    current (session_state w) = PyNone"
  let ?w1 = "dataset_state refresh_data w"
  from h have s: "session_state ?w1 = (session_state w)\<lparr>df := Some PyNone\<rparr>"
    using session_dataset_state[of refresh_data w] by simp
  then have d: "df (session_state ?w1) = Some PyNone" by simp
  from stage_warns[OF assms d] obtain msg where
    m: "main_navigation rd inp returned ?w1 = (Inr (), ?w1, [St_warning msg])" by blast
  have "run rd refresh_data inp returned w =
      (Inr (), ?w1, [Sidebar_error ''No Dataset Loaded'', St_warning msg])"
    by (simp add: run_def Let_def m sidebar_none[OF d])
  then show "\<exists>msg. run rd refresh_data inp returned w =
      (Inr (), ?w1, [Sidebar_error ''No Dataset Loaded'', St_warning msg])" by blast
  from s show "uploaded_df (session_state ?w1) = uploaded_df (session_state w)" by simp
  from s show "cleaned_df (session_state ?w1) = cleaned_df (session_state w)" by simp
qed

theorem missing_dataset_warning_witness:
  "choice (no_widgets Export_Dataset) \<in> analysis_stages \<and>
   df (session_state (set_df PyNone w9)) = Some PyNone \<and>
   (\<exists>msg. main_navigation Cleaning_in_handler (no_widgets Export_Dataset) PyNone
        (set_df PyNone w9) =
      (Inr (), set_df PyNone w9, [St_warning msg])) \<and>
   keeps_session (\<lambda>w. w) \<and> stale_free (session_state w9) \<and>
   current (session_state w9) = PyNone \<and>
   (\<exists>msg. run Cleaning_after_try (\<lambda>w. w) (no_widgets Export_Dataset) PyNone w9 =
      (Inr (), dataset_state (\<lambda>w. w) w9, [Sidebar_error ''No Dataset Loaded'', St_warning msg]))"
proof -
  have c: "choice (no_widgets Export_Dataset) \<in> analysis_stages"
    by (simp add: no_widgets_def analysis_stages_def)
  have d: "df (session_state (set_df PyNone w9)) = Some PyNone"
    by (simp add: set_df_def)
  have k: "keeps_session (\<lambda>w. w)" by (simp add: keeps_session_def)
  have f: "stale_free (session_state w9)" "current (session_state w9) = PyNone"
    by (simp_all add: stale_free_def current_def w9_def empty_world_def empty_session_def)
  from missing_dataset_warning[OF c, of "set_df PyNone w9" Cleaning_in_handler PyNone]
    missing_dataset_warning[OF c, of w9 Cleaning_after_try PyNone "\<lambda>w. w"] c d k f
  show ?thesis by blast
qed

subsection \<open>C6: files that cannot be read\<close>

text \<open>
  Claim C6 says that at upload time a file whose extension is neither \<^verbatim>\<open>.csv\<close> nor
  \<^verbatim>\<open>.xlsx\<close> gets a warning and commits nothing, and that a parse error is caught, shown
  as an error message, and leaves the prior dataset state as it was. Lines 128 to 142
  are written for that, and no run reaches them: line 123 raises first, so for
  \<^verbatim>\<open>broken.csv\<close>, which does not parse, nothing is caught and no error message is
  shown, and for \<^verbatim>\<open>notes.txt\<close> no warning is shown. Past line 123, in either reading,
  the handler of a parse error goes on into the cleaning block: it raises on \<^verbatim>\<open>None\<close>,
  or it assigns the cleaned slot.
\<close>

theorem upload_stops_at_upload_data:
  "run rd (\<lambda>w. w) ((no_widgets Upload_Dataset)\<lparr>uploaded_file := Some bad_csv\<rparr>) PyNone
      empty_world =
     (Inl (NameError ''upload_data''), set_df PyNone empty_world,
      [Sidebar_error ''No Dataset Loaded'']) \<and>
   run rd (\<lambda>w. w) ((no_widgets Upload_Dataset)\<lparr>uploaded_file := Some txt_file\<rparr>) PyNone
      empty_world =
     (Inl (NameError ''upload_data''), set_df PyNone empty_world,
      [Sidebar_error ''No Dataset Loaded'']) \<and>
   upload_rest rd ((no_widgets Upload_Dataset)\<lparr>uploaded_file := Some bad_csv\<rparr>) PyNone w_two =
     (Inl AttributeError, w_two, [St_error ''Error reading file'']) \<and>
   cleaned_df (session_state w_two) = None \<and>
   cleaned_df (session_state (fst (snd
     (upload_rest rd ((no_widgets Upload_Dataset)\<lparr>uploaded_file := Some bad_csv\<rparr>) (Ref 1)
        w_two)))) = Some (Ref 1)"
  by (simp add: run_def dataset_state_def main_navigation_def sidebar_def set_df_def
      no_widgets_def empty_world_def empty_session_def upload_branch_def resolve_name_def
      script_names_def builtin_names_def upload_rest_def try_body_def cleaning_block_def
      save_and_remember_def bad_csv_def txt_file_def w_two_def endswith_def Let_def
      recall_def)

subsection \<open>C7: scaling twice\<close>

text \<open>
  Claim C7 says that for a numeric column with at least two distinct values, min-max
  normalization applied twice gives the same column as applied once, within
  floating-point tolerance. That holds, and exactly, for a column in range: one that
  holds no infinity and whose spread, maximum minus minimum, is a value of its dtype
  (below \<open>2 ^ 63\<close> for \<^verbatim>\<open>int64\<close>, finite for \<^verbatim>\<open>float64\<close>). First for one column;
  then for the operation, on the columns selected among the table's numeric ones, the
  second application returns the world as the first has left it.
\<close>

theorem normalize_idempotent:
  assumes "cols = multiselect (numeric_cols (heap w r)) picks"
    and "\<forall>(n, c) \<in> set (heap w r). n \<in> set cols \<longrightarrow> is_numeric c \<and> in_range c"
  shows "(in_range c \<longrightarrow> scale (scale c) = scale c) \<and>
         (case normalize_selected cols r w of
            (x1, w1) \<Rightarrow> x1 = None \<and>
              multiselect (numeric_cols (heap w1 r)) picks = cols \<and>
              normalize_selected cols r w1 = (None, w1))"
proof -
  let ?fr = "heap w r"
  let ?w1 = "w\<lparr>heap := (heap w)(r := scale_cols cols ?fr)\<rparr>"
  have num: "is_numeric c" if "(n, c) \<in> set ?fr" "n \<in> set cols" for n c
    using assms(2) that by auto
  have rng: "in_range c" if "(n, c) \<in> set ?fr" "n \<in> set cols" for n c
    using assms(2) that by auto
  have first: "normalize_selected cols r w = (None, ?w1)"
    by (rule normalize_selected_scale[OF assms(1) num])
  have h1: "heap ?w1 r = scale_cols cols ?fr" by simp
  have cols1: "cols = multiselect (numeric_cols (heap ?w1 r)) picks"
    by (simp add: numeric_cols_scale_cols assms(1)[symmetric])
  have num1: "is_numeric c" if "(n, c) \<in> set (heap ?w1 r)" "n \<in> set cols" for n c
  proof (rule picked_after_scale[where fr = ?fr and picks = cols])
    show "is_numeric c'" if "(n', c') \<in> set ?fr" "n' \<in> set cols" for n' c'
      using that by (rule num)
    show "(n, c) \<in> set (scale_cols cols ?fr)" using that(1) by simp
    show "n \<in> set cols" by (rule that(2))
  qed
  have "normalize_selected cols r ?w1 =
      (None, ?w1\<lparr>heap := (heap ?w1)(r := scale_cols cols (heap ?w1 r))\<rparr>)"
    by (rule normalize_selected_scale[OF cols1 num1])
  also have "\<dots> = (None, ?w1)"
    using scale_cols_twice[where fr = ?fr and picks = cols, OF rng] by simp
  finally have second: "normalize_selected cols r ?w1 = (None, ?w1)" .
  show ?thesis
    unfolding first using second cols1 by (simp add: scale_twice)
qed

theorem normalize_idempotent_witness:
  "multiselect (numeric_cols (heap w8 0)) [''y'', ''name'', ''x''] = [''y'', ''x''] \<and>
   in_range (IntCol [0, 5, 10, 5]) \<and>
   in_range (FloatCol [Finite 2, Finite 4, NaN, Finite 10]) \<and>
   scale (FloatCol [Finite 2, Finite 4, NaN, Finite 10]) =
     FloatCol [Finite 0, Finite (1 / 4), NaN, Finite 1] \<and>
   scale (scale (FloatCol [Finite 2, Finite 4, NaN, Finite 10])) =
     FloatCol [Finite 0, Finite (1 / 4), NaN, Finite 1] \<and>
   (case normalize_selected [''y'', ''x''] 0 w8 of
      (x1, w1) \<Rightarrow> x1 = None \<and>
        heap w1 0 =
          [(''x'', FloatCol [Finite 0, Finite (1 / 2), Finite 1, Finite (1 / 2)]),
           (''y'', FloatCol [Finite 0, Finite (1 / 4), NaN, Finite 1]),
           (''name'', ObjCol [Some ''a'', None, Some ''c'', Some ''d''])] \<and>
        normalize_selected [''y'', ''x''] 0 w1 = (None, w1))"
proof -
  have m: "[''y'', ''x''] = multiselect (numeric_cols (heap w8 0)) [''y'', ''name'', ''x'']"
    by (simp add: multiselect_def numeric_cols_def w8_def empty_world_def)
  have ri: "in_range (IntCol [0, 5, 10, 5])"
    by (simp add: int_in_range_def)
  have rf: "in_range (FloatCol [Finite 2, Finite 4, NaN, Finite 10])"
    by (simp add: float_in_range_def float64_def rnd_small)
  have h: "\<forall>(n, c) \<in> set (heap w8 0). n \<in> set [''y'', ''x''] \<longrightarrow> is_numeric c \<and> in_range c"
    using ri rf by (simp add: w8_def empty_world_def)
  have s0: "float_minmax [Finite 2, Finite 4, NaN, Finite 10] =
      [Finite 0, Finite (1 / 4), NaN, Finite 1]"
    by (simp add: float_minmax_def fl_min_def fl_max_def round64_def rnd_0 rnd_1 rnd_small)
  have t0: "int_minmax [0, 5, 10, 5] = [Finite 0, Finite (1 / 2), Finite 1, Finite (1 / 2)]"
    by (simp add: int_minmax_def wrap64_def round64_0 round64_1 round64_small)
  have s: "scale (FloatCol [Finite 2, Finite 4, NaN, Finite 10]) =
      FloatCol [Finite 0, Finite (1 / 4), NaN, Finite 1]"
    by (simp add: s0)
  have n: "normalize_selected [''y'', ''x''] 0 w8 =
      (None, w8\<lparr>heap := (heap w8)
         (0 := [(''x'', FloatCol [Finite 0, Finite (1 / 2), Finite 1, Finite (1 / 2)]),
                (''y'', FloatCol [Finite 0, Finite (1 / 4), NaN, Finite 1]),
                (''name'', ObjCol [Some ''a'', None, Some ''c'', Some ''d''])])\<rparr>)"
    by (simp add: normalize_selected_def w8_def empty_world_def s0 t0)
  from normalize_idempotent[OF m h, of "FloatCol [Finite 2, Finite 4, NaN, Finite 10]"]
    m[symmetric] ri rf s n
  show ?thesis by simp
qed

text \<open>
  The claim as stated fails for the \<^verbatim>\<open>int64\<close> column of \<open>- 9 * 10 ^ 18\<close>, \<open>0\<close> and
  \<open>9 * 10 ^ 18\<close>, three distinct values: the spread \<open>18 * 10 ^ 18\<close> is not below
  \<open>2 ^ 63\<close>, the subtractions of line 161 wrap around, and the second application
  changes every cell but the last by more than any tolerance.
\<close>

theorem normalize_twice_differs:
  "scale big_column =
     FloatCol [Finite 0, Finite (- (1417632006486839 / 70368744177664)), Finite 1] \<and>
   scale (scale big_column) =
     FloatCol [Finite (8581241606647693 / 9007199254740992), Finite 0, Finite 1] \<and>
   fst (normalize_selected [''x''] 0 w_big) = None \<and>
   heap (snd (normalize_selected [''x''] 0 w_big)) 0 =
     [(''x'', FloatCol [Finite 0, Finite (- (1417632006486839 / 70368744177664)), Finite 1])] \<and>
   fst (normalize_selected [''x''] 0 (snd (normalize_selected [''x''] 0 w_big))) = None \<and>
   heap (snd (normalize_selected [''x''] 0 (snd (normalize_selected [''x''] 0 w_big)))) 0 =
     [(''x'', FloatCol [Finite (8581241606647693 / 9007199254740992), Finite 0, Finite 1])]"
proof -
  have 1: "normalize_selected [''x''] 0 w_big =
      (None, w_big\<lparr>heap := (heap w_big)(0 := [(''x'', scale big_column)])\<rparr>)"
    by (rule normalize_big)
  have 2: "normalize_selected [''x''] 0
        (w_big\<lparr>heap := (heap w_big)(0 := [(''x'', scale big_column)])\<rparr>) =
      (None, w_big\<lparr>heap := (heap w_big)(0 := [(''x'', scale (scale big_column))])\<rparr>)"
    by (simp add: normalize_selected_def scale_big_column)
  show ?thesis
    unfolding 1 snd_conv fst_conv 2
    by (simp add: scale_big_column big_second)
qed

subsection \<open>C8: the scaling formula\<close>




subsection \<open>C9: dropping rows twice\<close>

text \<open>
  Claim C9 says that dropping the missing values of a dataset that has none leaves it
  unchanged, and that for every dataset dropping twice is the same as dropping once.
\<close>

theorem drop_missing_idempotent:
  assumes "rectangular (heap w r)"
  shows "(no_missing (heap w r) \<longrightarrow> drop_missing_values r w = w) \<and>
         drop_missing_values r (drop_missing_values r w) = drop_missing_values r w"
  using assms by (simp add: drop_missing_values_def dropna_clean dropna_dropna)

theorem drop_missing_idempotent_witness:
  "rectangular (heap w9 1) \<and> no_missing (heap w9 1) \<and> drop_missing_values 1 w9 = w9 \<and>
   rectangular (heap w9 0) \<and> \<not> no_missing (heap w9 0) \<and>
   heap (drop_missing_values 0 w9) 0 =
     [(''x'', FloatCol [Finite 1]), (''y'', ObjCol [Some ''a''])] \<and>
   drop_missing_values 0 (drop_missing_values 0 w9) = drop_missing_values 0 w9"
proof -
  have r1: "rectangular (heap w9 1)" and n1: "no_missing (heap w9 1)"
    by (simp_all add: w9_def empty_world_def rectangular_def no_missing_def nrows_def)
  have r0: "rectangular (heap w9 0)" and n0: "\<not> no_missing (heap w9 0)"
    by (simp_all add: w9_def empty_world_def rectangular_def no_missing_def nrows_def)
  have h: "heap (drop_missing_values 0 w9) 0 =
      [(''x'', FloatCol [Finite 1]), (''y'', ObjCol [Some ''a''])]"
    by (simp add: drop_missing_values_def w9_def empty_world_def dropna_def complete_rows_def
        nrows_def cell_present_def keep_def upt_rec)
  from drop_missing_idempotent[OF r1] drop_missing_idempotent[OF r0] r1 n1 r0 n0 h
  show ?thesis by blast
qed

subsection \<open>C10: remembering twice\<close>

text \<open>
  Claim C10 says that \<^verbatim>\<open>remember(k, [x])\<close> followed by \<^verbatim>\<open>remember(k, [y])\<close> leaves
  \<^verbatim>\<open>recall(k)\<close> equal to \<^verbatim>\<open>[y]\<close>: the second write replaces the first.
\<close>

theorem remember_replaces: "recall k (remember k [y] (remember k [x] m)) = Some [y]"
  by (simp add: recall_def remember_def)

theorem remember_replaces_witness:
  "recall ''cleaning_steps''
     (remember ''cleaning_steps'' [''Normalized columns: x'']
        (remember ''cleaning_steps'' [''Dropped missing values''] Map.empty)) =
   Some [''Normalized columns: x'']"
  using remember_replaces[of "''cleaning_steps''" "''Normalized columns: x''"
      "''Dropped missing values''" Map.empty]
  by blast

end
